theory Spec2Isabelle
  imports Main "HOL-Library.Char_ord" "HOL-Library.List_Lexorder"
begin

section \<open>JavaScript values that travel through the task service\<close>

text \<open>
  The service of \<^verbatim>\<open>taskService.ts\<close> keeps the whole task collection as one JSON text in
  \<^verbatim>\<open>localStorage\<close>. What \<^verbatim>\<open>JSON.parse\<close> returns is not checked against the \<^verbatim>\<open>Task\<close>
  interface, so the model keeps the values dynamic, as the running code has them:
  a value is \<^verbatim>\<open>null\<close>, a boolean, a number, a string, an array or an object. An object is
  the list of its own properties in the order in which they were written; JavaScript
  enumerates keys that look like array indices first, which no field of a task is, and
  that reordering is left out. A number is kept as its literal: the service never
  computes with numbers, and floating point is outside this model. The code parses a
  number to a double and prints the double when it writes the value back (\<^verbatim>\<open>1.0\<close> becomes
  \<^verbatim>\<open>1\<close>, and a literal too large for a double becomes \<^verbatim>\<open>null\<close>); the model writes the
  literal back. No field of a task is a number, so this touches only numbers that
  something else has put into the storage. Strings are lists of
  8-bit characters; code units above 255 are outside this model. \<^verbatim>\<open>undefined\<close> is not a
  value of the model: a property that is absent reads as \<open>None\<close>, and a patch whose
  property holds \<^verbatim>\<open>undefined\<close> is not modelled.
\<close>

datatype jsval =
    JNull
  | JBool bool
  | JNum string
  | JStr string
  | JArr "jsval list"
  | JObj "(string \<times> jsval) list"

text \<open>
  Writing a property: an existing key keeps its place and takes the new value, a new key
  goes to the end. This is what an object literal, object spread and \<^verbatim>\<open>JSON.parse\<close> do for
  a key that comes again.
\<close>

fun obj_set :: "string \<Rightarrow> jsval \<Rightarrow> (string \<times> jsval) list \<Rightarrow> (string \<times> jsval) list" where
  "obj_set k v [] = [(k, v)]"
| "obj_set k v ((k', v') # kvs) =
     (if k' = k then (k, v) # kvs else (k', v') # obj_set k v kvs)"

text \<open>\<^verbatim>\<open>{...a, ...b}\<close>: the properties of \<^verbatim>\<open>b\<close> are written over those of \<^verbatim>\<open>a\<close>, in order.\<close>

fun spread :: "(string \<times> jsval) list \<Rightarrow> (string \<times> jsval) list \<Rightarrow> (string \<times> jsval) list" where
  "spread kvs [] = kvs"
| "spread kvs ((k, v) # rest) = spread (obj_set k v kvs) rest"

text \<open>Reading a property of an object; \<open>None\<close> is \<^verbatim>\<open>undefined\<close>.\<close>

fun get_prop :: "string \<Rightarrow> jsval \<Rightarrow> jsval option" where
  "get_prop k (JObj kvs) = map_of kvs k"
| "get_prop k _ = None"

section \<open>Number rendering\<close>

text \<open>\<^verbatim>\<open>Number.prototype.toString(radix)\<close> on a non-negative integer.\<close>

definition digit_of :: "nat \<Rightarrow> char" where
  "digit_of d = ''0123456789abcdefghijklmnopqrstuvwxyz'' ! d"

function toString_radix :: "nat \<Rightarrow> nat \<Rightarrow> string" where
  "toString_radix r n =
     (if r < 2 \<or> n < r then [digit_of n]
      else toString_radix r (n div r) @ [digit_of (n mod r)])"
  by pat_completeness auto
termination
  by (relation "measure (\<lambda>(r, n). n)") auto

section \<open>\<^verbatim>\<open>JSON.stringify\<close>\<close>

text \<open>
  \<^verbatim>\<open>QuoteJSONString\<close> of the language standard: the quote and the backslash are escaped,
  the five control characters with a short escape take it, every other character below
  0x20 becomes \<^verbatim>\<open>\u00XX\<close> in lower-case hexadecimal, everything else is copied.
\<close>

definition escape_char :: "char \<Rightarrow> string" where
  "escape_char c =
     (if c = CHR 0x22 then [CHR 0x5C, CHR 0x22]
      else if c = CHR 0x5C then [CHR 0x5C, CHR 0x5C]
      else if c = CHR 0x08 then [CHR 0x5C, CHR ''b'']
      else if c = CHR 0x0C then [CHR 0x5C, CHR ''f'']
      else if c = CHR 0x0A then [CHR 0x5C, CHR ''n'']
      else if c = CHR 0x0D then [CHR 0x5C, CHR ''r'']
      else if c = CHR 0x09 then [CHR 0x5C, CHR ''t'']
      else if (of_char c :: nat) < 32 then
        [CHR 0x5C, CHR ''u'', CHR ''0'', CHR ''0'',
         digit_of (of_char c div 16), digit_of (of_char c mod 16)]
      else [c])"

fun quote_body :: "string \<Rightarrow> string" where
  "quote_body [] = [CHR 0x22]"
| "quote_body (c # cs) = escape_char c @ quote_body cs"

definition quote :: "string \<Rightarrow> string" where
  "quote s = CHR 0x22 # quote_body s"

text \<open>
  The serialisation itself, without indentation (the service passes no \<^verbatim>\<open>space\<close>
  argument): elements and members are separated by a comma, a member is its quoted key,
  a colon and its value.
\<close>

fun JSON_stringify :: "jsval \<Rightarrow> string"
  and stringify_elements :: "jsval list \<Rightarrow> string"
  and stringify_members :: "(string \<times> jsval) list \<Rightarrow> string" where
  "JSON_stringify JNull = ''null''"
| "JSON_stringify (JBool b) = (if b then ''true'' else ''false'')"
| "JSON_stringify (JNum n) = n"
| "JSON_stringify (JStr s) = quote s"
| "JSON_stringify (JArr vs) = CHR ''['' # stringify_elements vs"
| "JSON_stringify (JObj kvs) = CHR ''{'' # stringify_members kvs"
| "stringify_elements [] = '']''"
| "stringify_elements [v] = JSON_stringify v @ '']''"
| "stringify_elements (v # w # vs) = JSON_stringify v @ CHR '','' # stringify_elements (w # vs)"
| "stringify_members [] = ''}''"
| "stringify_members [(k, v)] = quote k @ CHR '':'' # JSON_stringify v @ ''}''"
| "stringify_members ((k, v) # m # kvs) =
     quote k @ CHR '':'' # JSON_stringify v @ CHR '','' # stringify_members (m # kvs)"

section \<open>\<^verbatim>\<open>JSON.parse\<close>\<close>

text \<open>
  The JSON grammar of the language standard, read in two passes: the text is cut into
  tokens, then a stack machine builds the value. \<open>None\<close> stands for the
  \<^verbatim>\<open>SyntaxError\<close> that \<^verbatim>\<open>JSON.parse\<close> throws.
\<close>

subsection \<open>Tokens\<close>

datatype token =
    TLBrack | TRBrack | TLBrace | TRBrace | TColon | TComma
  | TStr string | TNum string | TTrue | TFalse | TNull

definition is_ws :: "char \<Rightarrow> bool" where
  "is_ws c = (c = CHR 0x20 \<or> c = CHR 0x09 \<or> c = CHR 0x0A \<or> c = CHR 0x0D)"

definition is_digit :: "char \<Rightarrow> bool" where
  "is_digit c = (c \<in> set ''0123456789'')"

definition is_numchar :: "char \<Rightarrow> bool" where
  "is_numchar c = (is_digit c \<or> c \<in> set ''+-.eE'')"

text \<open>
  A number literal: an optional minus, an integer part without a leading zero, an
  optional fraction, an optional exponent.
\<close>

definition is_digits1 :: "string \<Rightarrow> bool" where
  "is_digits1 s = (s \<noteq> [] \<and> list_all is_digit s)"

definition is_exponent :: "string \<Rightarrow> bool" where
  "is_exponent s =
     (case s of
        [] \<Rightarrow> True
      | e # r \<Rightarrow>
          (e = CHR ''e'' \<or> e = CHR ''E'') \<and>
          (case r of
             [] \<Rightarrow> False
           | g # r' \<Rightarrow> if g = CHR ''+'' \<or> g = CHR ''-'' then is_digits1 r' else is_digits1 r))"

definition is_fraction_exponent :: "string \<Rightarrow> bool" where
  "is_fraction_exponent s =
     (case s of
        [] \<Rightarrow> True
      | c # r \<Rightarrow>
          if c = CHR ''.'' then takeWhile is_digit r \<noteq> [] \<and> is_exponent (dropWhile is_digit r)
          else is_exponent s)"

definition is_unsigned :: "string \<Rightarrow> bool" where
  "is_unsigned s =
     (case s of
        [] \<Rightarrow> False
      | c # r \<Rightarrow>
          if c = CHR ''0'' then is_fraction_exponent r
          else is_digit c \<and> is_fraction_exponent (dropWhile is_digit r))"

definition is_number :: "string \<Rightarrow> bool" where
  "is_number s =
     (case s of
        [] \<Rightarrow> False
      | c # r \<Rightarrow> if c = CHR ''-'' then is_unsigned r else is_unsigned s)"

text \<open>
  String escapes. A \<^verbatim>\<open>\uXXXX\<close> escape that names a code unit above 255 names a character
  this model's strings do not have; the model rejects it.
\<close>

definition unescape :: "char \<Rightarrow> char option" where
  "unescape e =
     (if e = CHR 0x22 then Some (CHR 0x22)
      else if e = CHR 0x5C then Some (CHR 0x5C)
      else if e = CHR ''/'' then Some (CHR ''/'')
      else if e = CHR ''b'' then Some (CHR 0x08)
      else if e = CHR ''f'' then Some (CHR 0x0C)
      else if e = CHR ''n'' then Some (CHR 0x0A)
      else if e = CHR ''r'' then Some (CHR 0x0D)
      else if e = CHR ''t'' then Some (CHR 0x09)
      else None)"

definition hex_val :: "char \<Rightarrow> nat option" where
  "hex_val c =
     (if is_digit c then Some (of_char c - 48)
      else if c \<in> set ''abcdef'' then Some (of_char c - 87)
      else if c \<in> set ''ABCDEF'' then Some (of_char c - 55)
      else None)"

definition unhex4 :: "char \<Rightarrow> char \<Rightarrow> char \<Rightarrow> char \<Rightarrow> char option" where
  "unhex4 a b c d =
     (case (hex_val a, hex_val b, hex_val c, hex_val d) of
        (Some x, Some y, Some z, Some w) \<Rightarrow>
          (let n = ((x * 16 + y) * 16 + z) * 16 + w
           in if n < 256 then Some (char_of n) else None)
      | _ \<Rightarrow> None)"

text \<open>The body of a string literal, after the opening quote: the string and the rest.\<close>

fun lex_string :: "string \<Rightarrow> (string \<times> string) option" where
  "lex_string [] = None"
| "lex_string (c # cs) =
     (if c = CHR 0x22 then Some ([], cs)
      else if c = CHR 0x5C then
        (case cs of
           [] \<Rightarrow> None
         | e # cs1 \<Rightarrow>
             if e = CHR ''u'' then
               (case cs1 of
                  h1 # h2 # h3 # h4 # cs2 \<Rightarrow>
                    (case unhex4 h1 h2 h3 h4 of
                       None \<Rightarrow> None
                     | Some ch \<Rightarrow> map_option (\<lambda>(s, r). (ch # s, r)) (lex_string cs2))
                | _ \<Rightarrow> None)
             else
               (case unescape e of
                  None \<Rightarrow> None
                | Some ch \<Rightarrow> map_option (\<lambda>(s, r). (ch # s, r)) (lex_string cs1)))
      else if (of_char c :: nat) < 32 then None
      else map_option (\<lambda>(s, r). (c # s, r)) (lex_string cs))"

lemma lex_string_shorter: "lex_string cs = Some (s, r) \<Longrightarrow> length r < length cs"
proof (induction cs arbitrary: s r rule: lex_string.induct)
  case 1
  then show ?case by simp
next
  case (2 c cs)
  show ?case
  proof (cases "c = CHR 0x22")
    case True
    with "2.prems" show ?thesis by simp
  next
    case quote: False
    show ?thesis
    proof (cases "c = CHR 0x5C")
      case False
      with quote "2.prems" "2.IH"(3) show ?thesis
        by (fastforce split: if_splits)
    next
      case True
      with quote "2.prems" "2.IH"(1,2) show ?thesis
        by (fastforce split: if_splits list.splits option.splits)
    qed
  qed
qed

function lex :: "string \<Rightarrow> token list option" where
  "lex [] = Some []"
| "lex (c # cs) =
     (if is_ws c then lex cs
      else if c = CHR ''['' then map_option (Cons TLBrack) (lex cs)
      else if c = CHR '']'' then map_option (Cons TRBrack) (lex cs)
      else if c = CHR ''{'' then map_option (Cons TLBrace) (lex cs)
      else if c = CHR ''}'' then map_option (Cons TRBrace) (lex cs)
      else if c = CHR '':'' then map_option (Cons TColon) (lex cs)
      else if c = CHR '','' then map_option (Cons TComma) (lex cs)
      else if c = CHR 0x22 then
        (case lex_string cs of
           None \<Rightarrow> None
         | Some (s, r) \<Rightarrow> map_option (Cons (TStr s)) (lex r))
      else if is_numchar c then
        (if is_number (c # takeWhile is_numchar cs)
         then map_option (Cons (TNum (c # takeWhile is_numchar cs))) (lex (dropWhile is_numchar cs))
         else None)
      else if c = CHR ''t'' \<and> take 3 cs = ''rue'' then map_option (Cons TTrue) (lex (drop 3 cs))
      else if c = CHR ''f'' \<and> take 4 cs = ''alse'' then map_option (Cons TFalse) (lex (drop 4 cs))
      else if c = CHR ''n'' \<and> take 3 cs = ''ull'' then map_option (Cons TNull) (lex (drop 3 cs))
      else None)"
  by pat_completeness auto
termination
  by (relation "measure length")
     (auto dest: lex_string_shorter simp: less_Suc_eq_le length_dropWhile_le)

subsection \<open>Building the value\<close>

text \<open>
  The machine keeps the containers that are still open: an array with the elements read
  so far, an object with its members, or an object with its members and the key whose
  value is being read. A closed value goes into the innermost open container; with none
  open it is the result.
\<close>

datatype frame =
    InArr "jsval list"
  | InObj "(string \<times> jsval) list"
  | InMember "(string \<times> jsval) list" string

datatype expect = Value | ValueOrClose | Key | KeyOrClose | Colon | CommaOrClose

datatype config = Parsing expect "frame list" | Finished jsval

fun complete :: "jsval \<Rightarrow> frame list \<Rightarrow> config option" where
  "complete v [] = Some (Finished v)"
| "complete v (InArr vs # st) = Some (Parsing CommaOrClose (InArr (vs @ [v]) # st))"
| "complete v (InMember kvs k # st) = Some (Parsing CommaOrClose (InObj (obj_set k v kvs) # st))"
| "complete v (InObj kvs # st) = None"

fun close_array :: "frame list \<Rightarrow> config option" where
  "close_array (InArr vs # st) = complete (JArr vs) st"
| "close_array _ = None"

fun close_object :: "frame list \<Rightarrow> config option" where
  "close_object (InObj kvs # st) = complete (JObj kvs) st"
| "close_object _ = None"

fun open_member :: "string \<Rightarrow> frame list \<Rightarrow> config option" where
  "open_member k (InObj kvs # st) = Some (Parsing Colon (InMember kvs k # st))"
| "open_member k _ = None"

fun after_comma :: "frame list \<Rightarrow> config option" where
  "after_comma (InArr vs # st) = Some (Parsing Value (InArr vs # st))"
| "after_comma (InObj kvs # st) = Some (Parsing Key (InObj kvs # st))"
| "after_comma _ = None"

fun value_token :: "expect \<Rightarrow> frame list \<Rightarrow> token \<Rightarrow> config option" where
  "value_token e st TLBrack = Some (Parsing ValueOrClose (InArr [] # st))"
| "value_token e st TLBrace = Some (Parsing KeyOrClose (InObj [] # st))"
| "value_token e st (TStr s) = complete (JStr s) st"
| "value_token e st (TNum n) = complete (JNum n) st"
| "value_token e st TTrue = complete (JBool True) st"
| "value_token e st TFalse = complete (JBool False) st"
| "value_token e st TNull = complete JNull st"
| "value_token e st TRBrack = (if e = ValueOrClose then close_array st else None)"
| "value_token e st _ = None"

fun key_token :: "expect \<Rightarrow> frame list \<Rightarrow> token \<Rightarrow> config option" where
  "key_token e st (TStr k) = open_member k st"
| "key_token e st TRBrace = (if e = KeyOrClose then close_object st else None)"
| "key_token e st _ = None"

fun separator_token :: "frame list \<Rightarrow> token \<Rightarrow> config option" where
  "separator_token st TComma = after_comma st"
| "separator_token st TRBrack = close_array st"
| "separator_token st TRBrace = close_object st"
| "separator_token st _ = None"

fun step :: "config \<Rightarrow> token \<Rightarrow> config option" where
  "step (Finished v) t = None"
| "step (Parsing Value st) t = value_token Value st t"
| "step (Parsing ValueOrClose st) t = value_token ValueOrClose st t"
| "step (Parsing Key st) t = key_token Key st t"
| "step (Parsing KeyOrClose st) t = key_token KeyOrClose st t"
| "step (Parsing Colon st) t = (if t = TColon then Some (Parsing Value st) else None)"
| "step (Parsing CommaOrClose st) t = separator_token st t"

fun run :: "config option \<Rightarrow> token list \<Rightarrow> config option" where
  "run None ts = None"
| "run (Some c) [] = Some c"
| "run (Some c) (t # ts) = run (step c t) ts"

definition parse_tokens :: "token list \<Rightarrow> jsval option" where
  "parse_tokens ts =
     (case run (Some (Parsing Value [])) ts of
        Some (Finished v) \<Rightarrow> Some v
      | _ \<Rightarrow> None)"

definition JSON_parse :: "string \<Rightarrow> jsval option" where
  "JSON_parse text = (case lex text of None \<Rightarrow> None | Some ts \<Rightarrow> parse_tokens ts)"

section \<open>The browser's \<^verbatim>\<open>localStorage\<close>\<close>

text \<open>
  The store maps keys to strings. \<^verbatim>\<open>setItem\<close> may throw (the quota is exceeded, or the
  browser refuses writes); which writes the browser takes is part of the environment,
  so the state carries it as \<open>accepts\<close>. \<^verbatim>\<open>getItem\<close> does not throw.
\<close>

record LocalStorage =
  items :: "string \<rightharpoonup> string"
  accepts :: "string \<Rightarrow> string \<Rightarrow> bool"

datatype error = Task_not_found | TypeError | QuotaExceededError

definition getItem :: "string \<Rightarrow> LocalStorage \<Rightarrow> string option" where
  "getItem k ls = items ls k"

definition setItem :: "string \<Rightarrow> string \<Rightarrow> LocalStorage \<Rightarrow> error + LocalStorage" where
  "setItem k v ls =
     (if accepts ls k v then Inr (ls\<lparr>items := (items ls)(k \<mapsto> v)\<rparr>)
      else Inl QuotaExceededError)"

section \<open>The task service\<close>

text \<open>
  Every operation of \<^verbatim>\<open>taskService\<close> first awaits a timer and then runs to its end
  without another suspension, so on the single-threaded event loop its body is one
  atomic step on the storage. The model is that step: the timer is left out. What an
  operation reads from the clock and the random generator is an argument. The
  \<^verbatim>\<open>console.warn\<close> calls of the two \<^verbatim>\<open>catch\<close> blocks write to the console only, which is
  not part of the state.
\<close>

definition STORAGE_KEY :: string where
  "STORAGE_KEY = ''tasks''"

text \<open>
  What one call reads from its environment: \<^verbatim>\<open>Date.now()\<close> in milliseconds,
  \<^verbatim>\<open>Math.random().toString(36)\<close> (the rendering of a floating-point number, taken as it
  comes), and \<^verbatim>\<open>dayjs().toISOString()\<close>.
\<close>

record Readings =
  Date_now :: nat
  Math_random_36 :: string
  dayjs_toISOString :: string

definition generateId :: "Readings \<Rightarrow> string" where
  "generateId rd = toString_radix 36 (Date_now rd) @ drop 2 (Math_random_36 rd)"

definition getAllTasks :: "LocalStorage \<Rightarrow> jsval" where
  "getAllTasks ls =
     (case getItem STORAGE_KEY ls of
        None \<Rightarrow> JArr []
      | Some stored \<Rightarrow>
          if stored \<noteq> [] then
            (case JSON_parse stored of Some v \<Rightarrow> v | None \<Rightarrow> JArr [])
          else JArr [])"

definition saveTasks :: "jsval \<Rightarrow> LocalStorage \<Rightarrow> LocalStorage" where
  "saveTasks tasks ls =
     (case setItem STORAGE_KEY (JSON_stringify tasks) ls of
        Inr ls' \<Rightarrow> ls'
      | Inl e \<Rightarrow> ls)"

text \<open>
  \<^verbatim>\<open>t.id === id\<close> for an element \<^verbatim>\<open>t\<close> of the parsed array: reading a property of
  \<^verbatim>\<open>null\<close> throws, an object gives its own \<^verbatim>\<open>id\<close>, every other value has none.
\<close>

fun id_matches :: "string \<Rightarrow> jsval \<Rightarrow> error + bool" where
  "id_matches i JNull = Inl TypeError"
| "id_matches i (JObj kvs) = Inr (map_of kvs ''id'' = Some (JStr i))"
| "id_matches i _ = Inr False"

text \<open>\<^verbatim>\<open>tasks.find((t) => t.id === id)\<close>; \<open>None\<close> is \<^verbatim>\<open>undefined\<close>.\<close>

fun Array_find :: "string \<Rightarrow> jsval list \<Rightarrow> error + jsval option" where
  "Array_find i [] = Inr None"
| "Array_find i (t # ts) =
     (case id_matches i t of
        Inl e \<Rightarrow> Inl e
      | Inr b \<Rightarrow> if b then Inr (Some t) else Array_find i ts)"

text \<open>\<^verbatim>\<open>tasks.findIndex((t) => t.id === id)\<close>; \<open>None\<close> is the result \<^verbatim>\<open>-1\<close>.\<close>

fun Array_findIndex :: "string \<Rightarrow> jsval list \<Rightarrow> error + nat option" where
  "Array_findIndex i [] = Inr None"
| "Array_findIndex i (t # ts) =
     (case id_matches i t of
        Inl e \<Rightarrow> Inl e
      | Inr b \<Rightarrow>
          if b then Inr (Some 0)
          else (case Array_findIndex i ts of
                  Inl e \<Rightarrow> Inl e
                | Inr None \<Rightarrow> Inr None
                | Inr (Some n) \<Rightarrow> Inr (Some (Suc n))))"

text \<open>\<^verbatim>\<open>tasks.filter((t) => t.id !== id)\<close>.\<close>

fun Array_filter :: "string \<Rightarrow> jsval list \<Rightarrow> error + jsval list" where
  "Array_filter i [] = Inr []"
| "Array_filter i (t # ts) =
     (case id_matches i t of
        Inl e \<Rightarrow> Inl e
      | Inr b \<Rightarrow>
          (case Array_filter i ts of
             Inl e \<Rightarrow> Inl e
           | Inr r \<Rightarrow> Inr (if b then r else t # r)))"

text \<open>
  \<^verbatim>\<open>[...tasks, newTask]\<close> iterates \<^verbatim>\<open>tasks\<close>: an array gives its elements, a string its
  characters, and any other value is not iterable.
\<close>

fun iterate :: "jsval \<Rightarrow> error + jsval list" where
  "iterate (JArr vs) = Inr vs"
| "iterate (JStr s) = Inr (map (\<lambda>c. JStr [c]) s)"
| "iterate _ = Inl TypeError"

text \<open>
  \<^verbatim>\<open>{...t}\<close> copies the own enumerable properties of \<^verbatim>\<open>t\<close>: the members of an object,
  the indexed elements of an array or characters of a string, nothing for the rest.
\<close>

fun own_properties :: "jsval \<Rightarrow> (string \<times> jsval) list" where
  "own_properties (JObj kvs) = kvs"
| "own_properties (JArr vs) = zip (map (toString_radix 10) [0..<length vs]) vs"
| "own_properties (JStr s) = zip (map (toString_radix 10) [0..<length s]) (map (\<lambda>c. JStr [c]) s)"
| "own_properties _ = []"

datatype TaskPriority = low | medium | high

fun priority_string :: "TaskPriority \<Rightarrow> string" where
  "priority_string low = ''low''"
| "priority_string medium = ''medium''"
| "priority_string high = ''high''"

record CreateTaskRequest =
  title :: string
  description :: string
  dueDate :: string
  priority :: TaskPriority

text \<open>
  The patch of \<^verbatim>\<open>update\<close> is typed \<^verbatim>\<open>UpdateTaskRequest\<close>, all of whose fields are
  optional; at run time it is an object, and the spread copies whatever properties it
  has. The model takes it as the list of its properties.
\<close>

type_synonym UpdateTaskRequest = "(string \<times> jsval) list"

definition getAll :: "LocalStorage \<Rightarrow> (error + jsval) \<times> LocalStorage" where
  "getAll ls = (Inr (getAllTasks ls), ls)"

definition getById :: "string \<Rightarrow> LocalStorage \<Rightarrow> (error + jsval) \<times> LocalStorage" where
  "getById i ls =
     (case getAllTasks ls of
        JArr tasks \<Rightarrow>
          (case Array_find i tasks of
             Inl e \<Rightarrow> (Inl e, ls)
           | Inr None \<Rightarrow> (Inl Task_not_found, ls)
           | Inr (Some task) \<Rightarrow> (Inr task, ls))
      | _ \<Rightarrow> (Inl TypeError, ls))"

definition new_task :: "CreateTaskRequest \<Rightarrow> Readings \<Rightarrow> jsval" where
  "new_task data rd =
     JObj [(''id'', JStr (generateId rd)),
           (''title'', JStr (title data)),
           (''description'', JStr (description data)),
           (''dueDate'', JStr (dueDate data)),
           (''priority'', JStr (priority_string (priority data))),
           (''status'', JStr ''pending''),
           (''createdAt'', JStr (dayjs_toISOString rd)),
           (''updatedAt'', JStr (dayjs_toISOString rd))]"

definition create :: "CreateTaskRequest \<Rightarrow> Readings \<Rightarrow> LocalStorage \<Rightarrow> (error + jsval) \<times> LocalStorage" where
  "create data rd ls =
     (let tasks = getAllTasks ls;
          newTask = new_task data rd
      in case iterate tasks of
           Inl e \<Rightarrow> (Inl e, ls)
         | Inr ts \<Rightarrow> (Inr newTask, saveTasks (JArr (ts @ [newTask])) ls))"

definition updated_task :: "jsval \<Rightarrow> UpdateTaskRequest \<Rightarrow> Readings \<Rightarrow> jsval" where
  "updated_task task data rd =
     JObj (obj_set ''updatedAt'' (JStr (dayjs_toISOString rd)) (spread (own_properties task) data))"

definition update :: "string \<Rightarrow> UpdateTaskRequest \<Rightarrow> Readings \<Rightarrow> LocalStorage \<Rightarrow> (error + jsval) \<times> LocalStorage" where
  "update i data rd ls =
     (case getAllTasks ls of
        JArr tasks \<Rightarrow>
          (case Array_findIndex i tasks of
             Inl e \<Rightarrow> (Inl e, ls)
           | Inr None \<Rightarrow> (Inl Task_not_found, ls)
           | Inr (Some taskIndex) \<Rightarrow>
               (let updatedTask = updated_task (tasks ! taskIndex) data rd
                in (Inr updatedTask, saveTasks (JArr (tasks[taskIndex := updatedTask])) ls)))
      | _ \<Rightarrow> (Inl TypeError, ls))"

definition delete :: "string \<Rightarrow> LocalStorage \<Rightarrow> (error + unit) \<times> LocalStorage" where
  "delete i ls =
     (case getAllTasks ls of
        JArr tasks \<Rightarrow>
          (case Array_filter i tasks of
             Inl e \<Rightarrow> (Inl e, ls)
           | Inr filteredTasks \<Rightarrow> (Inr (), saveTasks (JArr filteredTasks) ls))
      | _ \<Rightarrow> (Inl TypeError, ls))"

section \<open>Values that survive serialisation\<close>

text \<open>
  A value is well formed when every number in it is a number literal of the JSON grammar
  and no object has a key twice. Everything \<^verbatim>\<open>JSON.parse\<close> returns is well formed, and
  the well-formed values are the ones \<^verbatim>\<open>JSON.stringify\<close> writes so that \<^verbatim>\<open>JSON.parse\<close>
  reads them back.
\<close>

fun wf_json :: "jsval \<Rightarrow> bool"
  and wf_elements :: "jsval list \<Rightarrow> bool"
  and wf_members :: "(string \<times> jsval) list \<Rightarrow> bool" where
  "wf_json JNull = True"
| "wf_json (JBool b) = True"
| "wf_json (JNum n) = is_number n"
| "wf_json (JStr s) = True"
| "wf_json (JArr vs) = wf_elements vs"
| "wf_json (JObj kvs) = wf_members kvs"
| "wf_elements [] = True"
| "wf_elements (v # vs) = (wf_json v \<and> wf_elements vs)"
| "wf_members [] = True"
| "wf_members ((k, v) # kvs) = (wf_json v \<and> k \<notin> fst ` set kvs \<and> wf_members kvs)"

text \<open>The tokens of the text that \<^verbatim>\<open>JSON.stringify\<close> writes for a value.\<close>

fun tokens_of :: "jsval \<Rightarrow> token list"
  and tokens_elements :: "jsval list \<Rightarrow> token list"
  and tokens_members :: "(string \<times> jsval) list \<Rightarrow> token list" where
  "tokens_of JNull = [TNull]"
| "tokens_of (JBool b) = [if b then TTrue else TFalse]"
| "tokens_of (JNum n) = [TNum n]"
| "tokens_of (JStr s) = [TStr s]"
| "tokens_of (JArr vs) = TLBrack # tokens_elements vs"
| "tokens_of (JObj kvs) = TLBrace # tokens_members kvs"
| "tokens_elements [] = [TRBrack]"
| "tokens_elements [v] = tokens_of v @ [TRBrack]"
| "tokens_elements (v # w # vs) = tokens_of v @ TComma # tokens_elements (w # vs)"
| "tokens_members [] = [TRBrace]"
| "tokens_members [(k, v)] = TStr k # TColon # tokens_of v @ [TRBrace]"
| "tokens_members ((k, v) # m # kvs) =
     TStr k # TColon # tokens_of v @ TComma # tokens_members (m # kvs)"

text \<open>What the parser keeps true of its tokens, open containers and configurations.\<close>

fun token_ok :: "token \<Rightarrow> bool" where
  "token_ok (TNum n) = is_number n"
| "token_ok _ = True"

fun wf_frame :: "frame \<Rightarrow> bool" where
  "wf_frame (InArr vs) = wf_elements vs"
| "wf_frame (InObj kvs) = wf_members kvs"
| "wf_frame (InMember kvs k) = wf_members kvs"

fun wf_config :: "config \<Rightarrow> bool" where
  "wf_config (Finished v) = wf_json v"
| "wf_config (Parsing e st) = list_all wf_frame st"

section \<open>Vocabulary of the properties\<close>

text \<open>
  \<open>has_id i t\<close>: the task \<open>t\<close> carries the identifier \<open>i\<close>. \<open>is_Task\<close>: an object with
  exactly the eight fields of the \<^verbatim>\<open>Task\<close> interface, all strings, the status and the
  priority among their enumerated values. \<open>stored_ids_unique\<close>: the stored value is an
  array without \<^verbatim>\<open>null\<close> entries whose \<^verbatim>\<open>id\<close> properties are pairwise different.
  \<open>holds_collection\<close>: the stored value is an array without \<^verbatim>\<open>null\<close> entries.
  \<open>number_free\<close>: no number occurs in the value, as in every \<^verbatim>\<open>Task\<close>.
  \<open>create_each\<close>: one \<^verbatim>\<open>create\<close> after the other, each awaited, each with its own request
  and its own readings of the clock and the random generator.
\<close>

definition has_id :: "string \<Rightarrow> jsval \<Rightarrow> bool" where
  "has_id i t = (get_prop ''id'' t = Some (JStr i))"

fun is_string :: "jsval \<Rightarrow> bool" where
  "is_string (JStr s) = True"
| "is_string _ = False"

definition Task_keys :: "string list" where
  "Task_keys = [''id'', ''title'', ''description'', ''dueDate'', ''status'', ''priority'',
     ''createdAt'', ''updatedAt'']"

fun is_Task :: "jsval \<Rightarrow> bool" where
  "is_Task (JObj kvs) =
     (distinct (map fst kvs) \<and> set (map fst kvs) = set Task_keys
      \<and> list_all (\<lambda>kv. is_string (snd kv)) kvs
      \<and> map_of kvs ''status'' \<in> {Some (JStr ''pending''), Some (JStr ''completed'')}
      \<and> map_of kvs ''priority'' \<in> {Some (JStr ''low''), Some (JStr ''medium''), Some (JStr ''high'')})"
| "is_Task _ = False"


definition holds_collection :: "LocalStorage \<Rightarrow> bool" where
  "holds_collection ls = (case getAllTasks ls of JArr tasks \<Rightarrow> JNull \<notin> set tasks | _ \<Rightarrow> False)"

fun number_free :: "jsval \<Rightarrow> bool"
  and number_free_elements :: "jsval list \<Rightarrow> bool"
  and number_free_members :: "(string \<times> jsval) list \<Rightarrow> bool" where
  "number_free JNull = True"
| "number_free (JBool b) = True"
| "number_free (JNum n) = False"
| "number_free (JStr s) = True"
| "number_free (JArr vs) = number_free_elements vs"
| "number_free (JObj kvs) = number_free_members kvs"
| "number_free_elements [] = True"
| "number_free_elements (v # vs) = (number_free v \<and> number_free_elements vs)"
| "number_free_members [] = True"
| "number_free_members ((k, v) # kvs) = (number_free v \<and> number_free_members kvs)"


section \<open>Example data\<close>

text \<open>
  A storage that takes every write, empty or holding a given text; the task of the
  specification's examples; requests, patches and readings; and the tasks that the
  examples produce.
\<close>

definition storage_with :: "string \<Rightarrow> LocalStorage" where
  "storage_with blob = \<lparr>items = [STORAGE_KEY \<mapsto> blob], accepts = (\<lambda>k v. True)\<rparr>"

definition empty_storage :: LocalStorage where
  "empty_storage = \<lparr>items = Map.empty, accepts = (\<lambda>k v. True)\<rparr>"

definition task_abc :: jsval where
  "task_abc = JObj [(''id'', JStr ''abc''), (''title'', JStr ''Buy milk''),
     (''description'', JStr ''2%, one gallon''), (''dueDate'', JStr ''2024-06-01T00:00:00.000Z''),
     (''priority'', JStr ''medium''), (''status'', JStr ''pending''),
     (''createdAt'', JStr ''2024-05-01T10:00:00.000Z''), (''updatedAt'', JStr ''2024-05-01T10:00:00.000Z'')]"

definition storage_abc :: LocalStorage where
  "storage_abc = storage_with (JSON_stringify (JArr [task_abc]))"

definition readings_1 :: Readings where
  "readings_1 = \<lparr>Date_now = 1717200000000, Math_random_36 = ''0.4fzyo82mvyr'',
     dayjs_toISOString = ''2024-06-01T00:00:00.000Z''\<rparr>"



definition patch_high :: UpdateTaskRequest where
  "patch_high = [(''priority'', JStr ''high'')]"






definition task_milk :: jsval where
  "task_milk = JObj [(''id'', JStr ''lwvcjk004fzyo82mvyr''), (''title'', JStr ''Buy milk''),
     (''description'', JStr ''2%, one gallon''), (''dueDate'', JStr ''2024-06-01T00:00:00.000Z''),
     (''priority'', JStr ''medium''), (''status'', JStr ''pending''),
     (''createdAt'', JStr ''2024-06-01T00:00:00.000Z''), (''updatedAt'', JStr ''2024-06-01T00:00:00.000Z'')]"

section \<open>The lexer reads what the serialiser writes\<close>

declare toString_radix.simps [simp del]

lemma lex_punct:
  "lex (CHR ''['' # cs) = map_option (Cons TLBrack) (lex cs)"
  "lex (CHR '']'' # cs) = map_option (Cons TRBrack) (lex cs)"
  "lex (CHR ''{'' # cs) = map_option (Cons TLBrace) (lex cs)"
  "lex (CHR ''}'' # cs) = map_option (Cons TRBrace) (lex cs)"
  "lex (CHR '':'' # cs) = map_option (Cons TColon) (lex cs)"
  "lex (CHR '','' # cs) = map_option (Cons TComma) (lex cs)"
  by (simp_all add: is_ws_def)

lemma lex_literal:
  "lex (''null'' @ cs) = map_option (Cons TNull) (lex cs)"
  "lex (''true'' @ cs) = map_option (Cons TTrue) (lex cs)"
  "lex (''false'' @ cs) = map_option (Cons TFalse) (lex cs)"
  by (simp_all add: is_ws_def is_numchar_def is_digit_def)

lemma lex_quote_char:
  "lex (CHR 0x22 # cs) =
     (case lex_string cs of None \<Rightarrow> None | Some (s, r) \<Rightarrow> map_option (Cons (TStr s)) (lex r))"
  by (simp add: is_ws_def)

lemma numchar_not_other:
  assumes "is_numchar c"
  shows "\<not> is_ws c" "c \<noteq> CHR ''[''" "c \<noteq> CHR '']''" "c \<noteq> CHR ''{''" "c \<noteq> CHR ''}''"
    "c \<noteq> CHR '':''" "c \<noteq> CHR '',''" "c \<noteq> CHR 0x22"
  using assms by (auto simp: is_numchar_def is_digit_def is_ws_def)

lemma lex_numchar:
  "is_numchar c \<Longrightarrow> lex (c # cs) =
     (if is_number (c # takeWhile is_numchar cs)
      then map_option (Cons (TNum (c # takeWhile is_numchar cs))) (lex (dropWhile is_numchar cs))
      else None)"
  by (simp add: numchar_not_other)

declare lex.simps(2) [simp del]


lemma digit_numchar: "is_digit c \<Longrightarrow> is_numchar c"
  by (simp add: is_numchar_def)

lemma digits_numchars: "list_all is_digit s \<Longrightarrow> list_all is_numchar s"
  by (induction s) (simp_all add: digit_numchar)

lemma is_digits1_numchars: "is_digits1 s \<Longrightarrow> list_all is_numchar s"
  by (simp add: is_digits1_def digits_numchars)

lemma is_exponent_numchars: "is_exponent s \<Longrightarrow> list_all is_numchar s"
  by (auto simp: is_exponent_def is_numchar_def dest!: is_digits1_numchars split: list.splits if_splits)


lemma split_digits_numchars:
  assumes "list_all is_numchar (dropWhile is_digit r)"
  shows "list_all is_numchar r"
proof -
  have "list_all is_digit (takeWhile is_digit r)"
    by (induction r) simp_all
  then have "list_all is_numchar (takeWhile is_digit r)"
    by (rule digits_numchars)
  with assms have "list_all is_numchar (takeWhile is_digit r @ dropWhile is_digit r)"
    unfolding list_all_append by blast
  then show ?thesis by (simp only: takeWhile_dropWhile_id)
qed

lemma is_fraction_exponent_numchars: "is_fraction_exponent s \<Longrightarrow> list_all is_numchar s"
proof (cases s)
  case Nil
  then show ?thesis by simp
next
  case (Cons c r)
  assume a: "is_fraction_exponent s"
  show ?thesis
  proof (cases "c = CHR ''.''")
    case True
    with a Cons have "is_exponent (dropWhile is_digit r)"
      by (simp add: is_fraction_exponent_def)
    then have "list_all is_numchar r"
      by (rule split_digits_numchars [OF is_exponent_numchars])
    with True Cons show ?thesis by (simp add: is_numchar_def)
  next
    case False
    with a Cons have "is_exponent s"
      by (simp add: is_fraction_exponent_def)
    then show ?thesis by (rule is_exponent_numchars)
  qed
qed

lemma is_unsigned_numchars: "is_unsigned s \<Longrightarrow> list_all is_numchar s"
proof (cases s)
  case Nil
  then show ?thesis by simp
next
  case (Cons c r)
  assume a: "is_unsigned s"
  show ?thesis
  proof (cases "c = CHR ''0''")
    case True
    with a Cons have "is_fraction_exponent r"
      by (simp add: is_unsigned_def)
    then have "list_all is_numchar r"
      by (rule is_fraction_exponent_numchars)
    with True Cons show ?thesis by (simp add: is_numchar_def is_digit_def)
  next
    case False
    with a Cons have d: "is_digit c" and f: "is_fraction_exponent (dropWhile is_digit r)"
      by (simp_all add: is_unsigned_def)
    from f have "list_all is_numchar r"
      by (rule split_digits_numchars [OF is_fraction_exponent_numchars])
    with d Cons show ?thesis by (simp add: digit_numchar)
  qed
qed


lemma is_number_numchars: "is_number n \<Longrightarrow> list_all is_numchar n"
proof (cases n)
  case Nil
  then show ?thesis by simp
next
  case (Cons c r)
  assume a: "is_number n"
  show ?thesis
  proof (cases "c = CHR ''-''")
    case True
    with a Cons have "is_unsigned r"
      by (simp add: is_number_def)
    then have "list_all is_numchar r"
      by (rule is_unsigned_numchars)
    with True Cons show ?thesis by (simp add: is_numchar_def)
  next
    case False
    with a Cons have "is_unsigned n"
      by (simp add: is_number_def)
    then show ?thesis by (rule is_unsigned_numchars)
  qed
qed

lemma is_number_nonempty: "is_number n \<Longrightarrow> n \<noteq> []"
  by (cases n) (simp_all add: is_number_def)


lemma takeWhile_all_then_stop:
  "list_all P xs \<Longrightarrow> rest = [] \<or> \<not> P (hd rest) \<Longrightarrow> takeWhile P (xs @ rest) = xs"
  by (induction xs) (cases rest; simp)+

lemma dropWhile_all_then_stop:
  "list_all P xs \<Longrightarrow> rest = [] \<or> \<not> P (hd rest) \<Longrightarrow> dropWhile P (xs @ rest) = rest"
  by (induction xs) (cases rest; simp)+

lemma lex_number:
  assumes "is_number n" and "rest = [] \<or> \<not> is_numchar (hd rest)"
  shows "lex (n @ rest) = map_option (Cons (TNum n)) (lex rest)"
proof -
  from assms(1) obtain c n' where n: "n = c # n'"
    by (cases n) (auto dest: is_number_nonempty)
  from assms(1) n have c: "is_numchar c" and n': "list_all is_numchar n'"
    using is_number_numchars [of n] by simp_all
  from n' assms(2) have "takeWhile is_numchar (n' @ rest) = n'" "dropWhile is_numchar (n' @ rest) = rest"
    by (simp_all add: takeWhile_all_then_stop dropWhile_all_then_stop)
  with assms(1) c n show ?thesis
    by (simp add: lex_numchar)
qed

lemma hex_val_digit_of: "d < 16 \<Longrightarrow> hex_val (digit_of d) = Some d"
proof -
  assume "d < 16"
  then have "d = 0 \<or> d = 1 \<or> d = 2 \<or> d = 3 \<or> d = 4 \<or> d = 5 \<or> d = 6 \<or> d = 7
      \<or> d = 8 \<or> d = 9 \<or> d = 10 \<or> d = 11 \<or> d = 12 \<or> d = 13 \<or> d = 14 \<or> d = 15"
    by arith
  then show ?thesis
    by (elim disjE) (simp_all add: hex_val_def digit_of_def is_digit_def)
qed

lemma unhex4_low:
  assumes "(of_char c :: nat) < 32"
  shows "unhex4 (CHR ''0'') (CHR ''0'') (digit_of (of_char c div 16)) (digit_of (of_char c mod 16)) = Some c"
proof -
  have z: "hex_val (CHR ''0'') = Some 0"
    by (simp add: hex_val_def is_digit_def)
  from assms have hi: "hex_val (digit_of (of_char c div 16)) = Some (of_char c div 16)"
    by (intro hex_val_digit_of) simp
  have lo: "hex_val (digit_of (of_char c mod 16)) = Some (of_char c mod 16)"
    by (intro hex_val_digit_of) simp
  have "(of_char c :: nat) < 256"
    using assms by simp
  with z hi lo show ?thesis
    by (simp add: unhex4_def)
qed

lemma lex_string_escape_char:
  "lex_string (escape_char c @ cs) = map_option (\<lambda>(s, r). (c # s, r)) (lex_string cs)"
proof -
  consider (short) "c \<in> {CHR 0x22, CHR 0x5C, CHR 0x08, CHR 0x0C, CHR 0x0A, CHR 0x0D, CHR 0x09}"
    | (ctrl) "c \<notin> {CHR 0x22, CHR 0x5C, CHR 0x08, CHR 0x0C, CHR 0x0A, CHR 0x0D, CHR 0x09}" "(of_char c :: nat) < 32"
    | (plain) "c \<notin> {CHR 0x22, CHR 0x5C, CHR 0x08, CHR 0x0C, CHR 0x0A, CHR 0x0D, CHR 0x09}" "\<not> (of_char c :: nat) < 32"
    by blast
  then show ?thesis
  proof cases
    case short
    then show ?thesis
      by (auto simp: escape_char_def unescape_def)
  next
    case ctrl
    then show ?thesis
      by (simp add: escape_char_def unhex4_low)
  next
    case plain
    then show ?thesis
      by (simp add: escape_char_def)
  qed
qed

lemma lex_string_quote_body: "lex_string (quote_body s @ rest) = Some (s, rest)"
  by (induction s) (simp_all add: lex_string_escape_char)

lemma lex_quote: "lex (quote s @ rest) = map_option (Cons (TStr s)) (lex rest)"
  by (simp add: quote_def lex_quote_char lex_string_quote_body)

lemma lex_stringify:
  "wf_json v \<Longrightarrow> rest = [] \<or> \<not> is_numchar (hd rest) \<Longrightarrow> lex rest = Some ts \<Longrightarrow>
     lex (JSON_stringify v @ rest) = Some (tokens_of v @ ts)"
  "wf_elements vs \<Longrightarrow> lex rest = Some ts \<Longrightarrow>
     lex (stringify_elements vs @ rest) = Some (tokens_elements vs @ ts)"
  "wf_members kvs \<Longrightarrow> lex rest = Some ts \<Longrightarrow>
     lex (stringify_members kvs @ rest) = Some (tokens_members kvs @ ts)"
proof (induction v and vs and kvs arbitrary: rest ts and rest ts and rest ts
    rule: JSON_stringify_stringify_elements_stringify_members.induct)
  case 1
  then show ?case using lex_literal(1) [of rest] by simp
next
  case (2 b)
  then show ?case using lex_literal(2,3) [of rest] by simp
next
  case (3 n)
  then show ?case by (simp add: lex_number)
next
  case (4 s)
  then show ?case by (simp add: lex_quote)
next
  case (5 vs)
  then show ?case by (simp add: lex_punct)
next
  case (6 kvs)
  then show ?case by (simp add: lex_punct)
next
  case 7
  then show ?case by (simp add: lex_punct)
next
  case (8 v)
  have "\<not> is_numchar (hd (CHR '']'' # rest))"
    by (simp add: is_numchar_def is_digit_def)
  moreover from 8 have "lex (CHR '']'' # rest) = Some (TRBrack # ts)"
    by (simp add: lex_punct)
  ultimately have "lex (JSON_stringify v @ CHR '']'' # rest) = Some (tokens_of v @ TRBrack # ts)"
    using 8 by simp
  then show ?case by simp
next
  case (9 v w vs)
  have "\<not> is_numchar (hd (CHR '','' # stringify_elements (w # vs) @ rest))"
    by (simp add: is_numchar_def is_digit_def)
  moreover from 9 have "lex (CHR '','' # stringify_elements (w # vs) @ rest)
      = Some (TComma # tokens_elements (w # vs) @ ts)"
    by (simp add: lex_punct)
  ultimately have "lex (JSON_stringify v @ CHR '','' # stringify_elements (w # vs) @ rest)
      = Some (tokens_of v @ TComma # tokens_elements (w # vs) @ ts)"
    using 9 by simp
  then show ?case by simp
next
  case 10
  then show ?case by (simp add: lex_punct)
next
  case (11 k v)
  have "\<not> is_numchar (hd (CHR ''}'' # rest))"
    by (simp add: is_numchar_def is_digit_def)
  moreover from 11 have "lex (CHR ''}'' # rest) = Some (TRBrace # ts)"
    by (simp add: lex_punct)
  ultimately have "lex (JSON_stringify v @ CHR ''}'' # rest) = Some (tokens_of v @ TRBrace # ts)"
    using 11 by simp
  then show ?case by (simp add: lex_quote lex_punct)
next
  case (12 k v m kvs)
  have "\<not> is_numchar (hd (CHR '','' # stringify_members (m # kvs) @ rest))"
    by (simp add: is_numchar_def is_digit_def)
  moreover from 12 have "lex (CHR '','' # stringify_members (m # kvs) @ rest)
      = Some (TComma # tokens_members (m # kvs) @ ts)"
    by (simp add: lex_punct)
  ultimately have "lex (JSON_stringify v @ CHR '','' # stringify_members (m # kvs) @ rest)
      = Some (tokens_of v @ TComma # tokens_members (m # kvs) @ ts)"
    using 12 by simp
  then show ?case by (simp add: lex_quote lex_punct)
qed

section \<open>The parser rebuilds the value\<close>

lemma step_value:
  "e = Value \<or> e = ValueOrClose \<Longrightarrow> step (Parsing e st) t = value_token e st t"
  by auto

lemma step_key:
  "e = Key \<or> e = KeyOrClose \<Longrightarrow> step (Parsing e st) t = key_token e st t"
  by auto

lemma obj_set_fresh: "k \<notin> fst ` set kvs \<Longrightarrow> obj_set k v kvs = kvs @ [(k, v)]"
  by (induction kvs) auto

lemma run_tokens:
  "wf_json v \<Longrightarrow> e = Value \<or> e = ValueOrClose \<Longrightarrow>
     run (Some (Parsing e st)) (tokens_of v @ rest) = run (complete v st) rest"
  "wf_elements vs \<Longrightarrow> e = ValueOrClose \<or> (e = Value \<and> vs \<noteq> []) \<Longrightarrow>
     run (Some (Parsing e (InArr acc # st))) (tokens_elements vs @ rest)
       = run (complete (JArr (acc @ vs)) st) rest"
  "wf_members kvs \<Longrightarrow> fst ` set mem \<inter> fst ` set kvs = {} \<Longrightarrow>
     e = KeyOrClose \<or> (e = Key \<and> kvs \<noteq> []) \<Longrightarrow>
     run (Some (Parsing e (InObj mem # st))) (tokens_members kvs @ rest)
       = run (complete (JObj (mem @ kvs)) st) rest"
proof (induction v and vs and kvs arbitrary: e st rest and e st rest acc and e st rest mem
    rule: JSON_stringify_stringify_elements_stringify_members.induct)
  case 1
  then show ?case by (simp add: step_value)
next
  case (2 b)
  then show ?case by (simp add: step_value)
next
  case (3 n)
  then show ?case by (simp add: step_value)
next
  case (4 s)
  then show ?case by (simp add: step_value)
next
  case (5 vs)
  then show ?case by (simp add: step_value)
next
  case (6 kvs)
  then show ?case by (simp add: step_value)
next
  case 7
  then show ?case by (simp add: step_value)
next
  case (8 v)
  from 8 have e: "e = Value \<or> e = ValueOrClose" and v: "wf_json v"
    by auto
  have "run (Some (Parsing e (InArr acc # st))) (tokens_of v @ TRBrack # rest)
      = run (complete v (InArr acc # st)) (TRBrack # rest)"
    by (rule "8.IH" [OF v e])
  then show ?case by simp
next
  case (9 v w vs)
  from 9 have e: "e = Value \<or> e = ValueOrClose" and v: "wf_json v" and r: "wf_elements (w # vs)"
    by auto
  have "run (Some (Parsing e (InArr acc # st))) (tokens_of v @ TComma # tokens_elements (w # vs) @ rest)
      = run (complete v (InArr acc # st)) (TComma # tokens_elements (w # vs) @ rest)"
    by (rule "9.IH"(1) [OF v e])
  also have "\<dots> = run (Some (Parsing Value (InArr (acc @ [v]) # st))) (tokens_elements (w # vs) @ rest)"
    by simp
  also have "\<dots> = run (complete (JArr ((acc @ [v]) @ w # vs)) st) rest"
    by (rule "9.IH"(2) [OF r]) simp
  finally show ?case by simp
next
  case 10
  then show ?case by (simp add: step_key)
next
  case (11 k v)
  from 11 have e: "e = Key \<or> e = KeyOrClose" and v: "wf_json v" and k: "k \<notin> fst ` set mem"
    by auto
  have "run (Some (Parsing e (InObj mem # st))) (tokens_members [(k, v)] @ rest)
      = run (Some (Parsing Value (InMember mem k # st))) (tokens_of v @ TRBrace # rest)"
    using e by (simp add: step_key)
  also have "\<dots> = run (complete v (InMember mem k # st)) (TRBrace # rest)"
    by (rule "11.IH" [OF v]) simp
  finally show ?case using k by (simp add: obj_set_fresh)
next
  case (12 k v m kvs)
  from 12 have e: "e = Key \<or> e = KeyOrClose" and v: "wf_json v" and k: "k \<notin> fst ` set mem"
    and r: "wf_members (m # kvs)"
    and d: "fst ` set (mem @ [(k, v)]) \<inter> fst ` set (m # kvs) = {}"
    by auto
  have "run (Some (Parsing e (InObj mem # st))) (tokens_members ((k, v) # m # kvs) @ rest)
      = run (Some (Parsing Value (InMember mem k # st)))
          (tokens_of v @ TComma # tokens_members (m # kvs) @ rest)"
    using e by (simp add: step_key)
  also have "\<dots> = run (complete v (InMember mem k # st)) (TComma # tokens_members (m # kvs) @ rest)"
    by (rule "12.IH"(1) [OF v]) simp
  also have "\<dots> = run (Some (Parsing Key (InObj (mem @ [(k, v)]) # st))) (tokens_members (m # kvs) @ rest)"
    using k by (simp add: obj_set_fresh)
  also have "\<dots> = run (complete (JObj ((mem @ [(k, v)]) @ m # kvs)) st) rest"
    by (rule "12.IH"(2) [OF r d]) simp
  finally show ?case by simp
qed

lemma JSON_parse_stringify: "wf_json v \<Longrightarrow> JSON_parse (JSON_stringify v) = Some v"
proof -
  assume v: "wf_json v"
  then have "lex (JSON_stringify v @ []) = Some (tokens_of v @ [])"
    by (rule lex_stringify(1)) simp_all
  moreover have "run (Some (Parsing Value [])) (tokens_of v @ []) = run (complete v []) []"
    by (rule run_tokens(1) [OF v]) simp
  ultimately show ?thesis
    by (simp add: JSON_parse_def parse_tokens_def)
qed

lemma quote_nonempty: "quote s \<noteq> []"
  by (simp add: quote_def)

lemma JSON_stringify_nonempty: "wf_json v \<Longrightarrow> JSON_stringify v \<noteq> []"
  by (cases v) (auto simp: quote_nonempty dest: is_number_nonempty)

section \<open>Parsed values are well formed\<close>

lemma lex_tokens_ok: "lex s = Some ts \<Longrightarrow> list_all token_ok ts"
proof (induction "length s" arbitrary: s ts rule: less_induct)
  case less
  show ?case
  proof (cases s)
    case Nil
    with less.prems show ?thesis by simp
  next
    case (Cons c cs)
    have IH: "list_all token_ok ts'" if "length cs' \<le> length cs" "lex cs' = Some ts'" for cs' ts'
      using less.hyps [of cs' ts'] that Cons by simp
    have tail: "list_all token_ok z" if "lex cs = Some z" for z
      using that by (intro IH [of cs]) simp_all
    have str: "list_all token_ok z" if "lex_string cs = Some (x, r)" "lex r = Some z" for x r z
      using lex_string_shorter [OF that(1)] that(2) by (intro IH [of r]) simp_all
    have num: "list_all token_ok z" if "lex (dropWhile is_numchar cs) = Some z" for z
      using that by (intro IH [of "dropWhile is_numchar cs"]) (simp_all add: length_dropWhile_le)
    have lit: "list_all token_ok z" if "lex (drop n cs) = Some z" for z n
      using that by (intro IH [of "drop n cs"]) simp_all
    from less.prems Cons show ?thesis
      by (auto simp: lex.simps(2) split: if_splits option.splits dest: tail str num lit)
  qed
qed

lemma wf_elements_snoc: "wf_elements (vs @ [v]) = (wf_elements vs \<and> wf_json v)"
  by (induction vs) auto

lemma keys_obj_set: "fst ` set (obj_set k v kvs) = insert k (fst ` set kvs)"
proof (induction kvs)
  case Nil
  show ?case by simp
next
  case (Cons kv kvs)
  then show ?case by (cases kv) auto
qed

lemma wf_members_obj_set: "wf_members kvs \<Longrightarrow> wf_json v \<Longrightarrow> wf_members (obj_set k v kvs)"
proof (induction kvs)
  case Nil
  then show ?case by simp
next
  case (Cons kv kvs)
  obtain k' v' where kv: "kv = (k', v')"
    by (cases kv)
  with Cons show ?case
    by (auto simp: keys_obj_set)
qed

lemma complete_wf:
  "complete v st = Some c \<Longrightarrow> wf_json v \<Longrightarrow> list_all wf_frame st \<Longrightarrow> wf_config c"
  by (induction v st rule: complete.induct) (auto simp: wf_elements_snoc wf_members_obj_set)

lemma close_array_wf: "close_array st = Some c \<Longrightarrow> list_all wf_frame st \<Longrightarrow> wf_config c"
  by (induction st rule: close_array.induct) (auto dest: complete_wf)

lemma close_object_wf: "close_object st = Some c \<Longrightarrow> list_all wf_frame st \<Longrightarrow> wf_config c"
  by (induction st rule: close_object.induct) (auto dest: complete_wf)

lemma open_member_wf: "open_member k st = Some c \<Longrightarrow> list_all wf_frame st \<Longrightarrow> wf_config c"
  by (induction k st rule: open_member.induct) auto

lemma after_comma_wf: "after_comma st = Some c \<Longrightarrow> list_all wf_frame st \<Longrightarrow> wf_config c"
  by (induction st rule: after_comma.induct) auto

lemma value_token_wf:
  "value_token e st t = Some c \<Longrightarrow> token_ok t \<Longrightarrow> list_all wf_frame st \<Longrightarrow> wf_config c"
  by (cases t) (auto dest: complete_wf close_array_wf split: if_splits)

lemma key_token_wf:
  "key_token e st t = Some c \<Longrightarrow> list_all wf_frame st \<Longrightarrow> wf_config c"
  by (cases t) (auto dest: open_member_wf close_object_wf split: if_splits)

lemma separator_token_wf:
  "separator_token st t = Some c \<Longrightarrow> list_all wf_frame st \<Longrightarrow> wf_config c"
  by (cases t) (auto dest: after_comma_wf close_array_wf close_object_wf)

lemma step_wf: "step c t = Some c' \<Longrightarrow> token_ok t \<Longrightarrow> wf_config c \<Longrightarrow> wf_config c'"
  by (induction c t rule: step.induct)
    (auto dest: value_token_wf key_token_wf separator_token_wf split: if_splits)

lemma run_wf:
  "run (Some c) ts = Some c' \<Longrightarrow> list_all token_ok ts \<Longrightarrow> wf_config c \<Longrightarrow> wf_config c'"
proof (induction ts arbitrary: c)
  case Nil
  then show ?case by simp
next
  case (Cons t ts)
  then obtain d where d: "step c t = Some d"
    by (cases "step c t") auto
  with Cons.prems have "wf_config d"
    by (auto dest: step_wf)
  with Cons d show ?case by auto
qed

lemma JSON_parse_wf: "JSON_parse s = Some v \<Longrightarrow> wf_json v"
proof -
  assume p: "JSON_parse s = Some v"
  then obtain ts where l: "lex s = Some ts" and "parse_tokens ts = Some v"
    by (auto simp: JSON_parse_def split: option.splits)
  then have "run (Some (Parsing Value [])) ts = Some (Finished v)"
    by (auto simp: parse_tokens_def split: option.splits config.splits)
  moreover from l have "list_all token_ok ts"
    by (rule lex_tokens_ok)
  ultimately have "wf_config (Finished v)"
    by (rule run_wf) simp
  then show ?thesis by simp
qed

section \<open>Storage, searches and objects\<close>

subsection \<open>Loading and saving\<close>

declare JSON_stringify.simps [simp del] stringify_elements.simps [simp del]
  stringify_members.simps [simp del]

lemma JSON_parse_Nil: "JSON_parse [] = None"
  by (simp add: JSON_parse_def parse_tokens_def)

lemma getAllTasks_wf: "wf_json (getAllTasks ls)"
  by (auto simp: getAllTasks_def dest: JSON_parse_wf split: option.splits)

lemma getAllTasks_stored:
  "wf_json v \<Longrightarrow> items ls STORAGE_KEY = Some (JSON_stringify v) \<Longrightarrow> getAllTasks ls = v"
  by (simp add: getAllTasks_def getItem_def JSON_parse_stringify JSON_stringify_nonempty)

lemma saveTasks_accepted:
  "accepts ls STORAGE_KEY (JSON_stringify v) \<Longrightarrow>
     saveTasks v ls = ls\<lparr>items := (items ls)(STORAGE_KEY \<mapsto> JSON_stringify v)\<rparr>"
  by (simp add: saveTasks_def setItem_def)

lemma saveTasks_rejected:
  "\<not> accepts ls STORAGE_KEY (JSON_stringify v) \<Longrightarrow> saveTasks v ls = ls"
  by (simp add: saveTasks_def setItem_def)

lemma getAllTasks_saveTasks:
  "wf_json v \<Longrightarrow> accepts ls STORAGE_KEY (JSON_stringify v) \<Longrightarrow> getAllTasks (saveTasks v ls) = v"
  by (simp add: saveTasks_accepted getAllTasks_stored)

lemma getAllTasks_saveTasks_cases:
  "wf_json v \<Longrightarrow> getAllTasks (saveTasks v ls) = v \<or> saveTasks v ls = ls"
  by (cases "accepts ls STORAGE_KEY (JSON_stringify v)")
    (simp_all add: getAllTasks_saveTasks saveTasks_rejected)

lemma saveTasks_twice: "saveTasks v (saveTasks v ls) = saveTasks v ls"
  by (cases "accepts ls STORAGE_KEY (JSON_stringify v)")
    (simp_all add: saveTasks_accepted saveTasks_rejected)

lemma getAllTasks_storage_with: "wf_json v \<Longrightarrow> getAllTasks (storage_with (JSON_stringify v)) = v"
  by (rule getAllTasks_stored) (simp_all add: storage_with_def)

lemma wf_task_abc: "wf_json task_abc"
  by (simp add: task_abc_def)

lemma getAllTasks_storage_abc: "getAllTasks storage_abc = JArr [task_abc]"
  unfolding storage_abc_def by (rule getAllTasks_storage_with) (simp add: wf_task_abc)


subsection \<open>Searching the array\<close>

lemma id_matches_eq: "JNull \<noteq> t \<Longrightarrow> id_matches i t = Inr (has_id i t)"
  by (cases t) (simp_all add: has_id_def)

lemma Array_find_absent:
  "JNull \<notin> set ts \<Longrightarrow> \<forall>t\<in>set ts. \<not> has_id i t \<Longrightarrow> Array_find i ts = Inr None"
  by (induction ts) (simp_all add: id_matches_eq)

lemma Array_findIndex_absent:
  "JNull \<notin> set ts \<Longrightarrow> \<forall>t\<in>set ts. \<not> has_id i t \<Longrightarrow> Array_findIndex i ts = Inr None"
  by (induction ts) (simp_all add: id_matches_eq)

lemma Array_filter_eq:
  "JNull \<notin> set ts \<Longrightarrow> Array_filter i ts = Inr (filter (\<lambda>t. \<not> has_id i t) ts)"
  by (induction ts) (simp_all add: id_matches_eq)

lemma Array_findIndex_first:
  "JNull \<notin> set ts \<Longrightarrow> n < length ts \<Longrightarrow> has_id i (ts ! n) \<Longrightarrow>
     list_all (\<lambda>t. \<not> has_id i t) (take n ts) \<Longrightarrow> Array_findIndex i ts = Inr (Some n)"
proof (induction ts arbitrary: n)
  case Nil
  then show ?case by simp
next
  case (Cons t ts)
  show ?case
  proof (cases n)
    case 0
    with Cons.prems show ?thesis by (simp add: id_matches_eq)
  next
    case (Suc m)
    with Cons.prems have "Array_findIndex i ts = Inr (Some m)"
      by (intro Cons.IH) simp_all
    with Suc Cons.prems show ?thesis by (simp add: id_matches_eq)
  qed
qed

subsection \<open>Objects and the spread\<close>



lemma wf_members_iff:
  "wf_members kvs = (distinct (map fst kvs) \<and> (\<forall>kv\<in>set kvs. wf_json (snd kv)))"
  by (induction kvs) force+

lemma wf_elements_iff: "wf_elements vs = (\<forall>v\<in>set vs. wf_json v)"
  by (induction vs) auto

lemma wf_members_spread:
  "wf_members kvs \<Longrightarrow> \<forall>kv\<in>set data. wf_json (snd kv) \<Longrightarrow> wf_members (spread kvs data)"
proof (induction data arbitrary: kvs)
  case Nil
  then show ?case by simp
next
  case (Cons kv data)
  then show ?case by (cases kv) (simp add: wf_members_obj_set)
qed

lemma has_id_object: "has_id i t \<Longrightarrow> \<exists>kvs. t = JObj kvs"
  by (cases t) (simp_all add: has_id_def)

lemma wf_updated_task:
  assumes "has_id i t" "wf_json t" "wf_members data"
  shows "wf_json (updated_task t data rd)"
proof -
  from assms(1) obtain kvs where t: "t = JObj kvs"
    by (auto dest: has_id_object)
  from assms(3) have "\<forall>kv\<in>set data. wf_json (snd kv)"
    by (simp add: wf_members_iff)
  with assms(2) t show ?thesis
    by (simp add: updated_task_def wf_members_obj_set wf_members_spread)
qed


lemma wf_new_task: "wf_json (new_task data rd)"
  by (simp add: new_task_def)

subsection \<open>The operations on a stored collection\<close>

lemma update_existing:
  assumes "getAllTasks ls = JArr tasks" "JNull \<notin> set tasks" "n < length tasks"
    "has_id i (tasks ! n)" "list_all (\<lambda>t. \<not> has_id i t) (take n tasks)"
  shows "update i data rd ls =
     (Inr (updated_task (tasks ! n) data rd),
      saveTasks (JArr (tasks[n := updated_task (tasks ! n) data rd])) ls)"
  using assms by (simp add: update_def Array_findIndex_first Let_def)

lemma create_on_array:
  "getAllTasks ls = JArr tasks \<Longrightarrow>
     create data rd ls = (Inr (new_task data rd), saveTasks (JArr (tasks @ [new_task data rd])) ls)"
  by (simp add: create_def Let_def)

lemma delete_on_collection:
  "getAllTasks ls = JArr tasks \<Longrightarrow> JNull \<notin> set tasks \<Longrightarrow>
     delete i ls = (Inr (), saveTasks (JArr (filter (\<lambda>t. \<not> has_id i t) tasks)) ls)"
  by (simp add: delete_def Array_filter_eq)

lemma wf_stored_tasks: "getAllTasks ls = JArr tasks \<Longrightarrow> wf_elements tasks"
  using getAllTasks_wf [of ls] by simp

subsection \<open>The examples computed\<close>







lemma saveTasks_storage_with: "saveTasks v (storage_with blob) = storage_with (JSON_stringify v)"
  by (simp add: saveTasks_def setItem_def storage_with_def)




lemma is_string_wf: "is_string v \<Longrightarrow> wf_json v"
  by (cases v) simp_all

lemma is_Task_wf: "is_Task t \<Longrightarrow> wf_json t"
proof (cases t)
  case (JObj kvs)
  assume "is_Task t"
  with JObj have "distinct (map fst kvs)" and "\<forall>kv\<in>set kvs. is_string (snd kv)"
    by (simp_all add: list_all_iff)
  with JObj show ?thesis
    by (simp add: wf_members_iff is_string_wf)
qed simp_all


lemma first_index_exists:
  "\<exists>t\<in>set ts. P t \<Longrightarrow> \<exists>n<length ts. P (ts ! n) \<and> list_all (\<lambda>t. \<not> P t) (take n ts)"
proof (induction ts)
  case Nil
  then show ?case by simp
next
  case (Cons t ts)
  show ?case
  proof (cases "P t")
    case True
    then have "0 < length (t # ts) \<and> P ((t # ts) ! 0) \<and> list_all (\<lambda>t. \<not> P t) (take 0 (t # ts))"
      by simp
    then show ?thesis by blast
  next
    case False
    with Cons obtain n where "n < length ts" "P (ts ! n)" "list_all (\<lambda>t. \<not> P t) (take n ts)"
      by auto
    with False have "Suc n < length (t # ts) \<and> P ((t # ts) ! Suc n)
        \<and> list_all (\<lambda>t. \<not> P t) (take (Suc n) (t # ts))"
      by simp
    then show ?thesis by blast
  qed
qed

lemma wf_elements_list_update:
  "wf_elements ts \<Longrightarrow> wf_json v \<Longrightarrow> wf_elements (ts[n := v])"
  by (auto simp: wf_elements_iff dest: set_update_subset_insert [THEN subsetD])


lemma wf_elements_filter: "wf_elements ts \<Longrightarrow> wf_elements (filter P ts)"
  by (simp add: wf_elements_iff)

lemma delete_twice:
  assumes "getAllTasks ls = JArr tasks" and "JNull \<notin> set tasks"
  shows "delete i (snd (delete i ls)) = delete i ls"
proof -
  let ?kept = "filter (\<lambda>t. \<not> has_id i t) tasks"
  have d: "delete i ls = (Inr (), saveTasks (JArr ?kept) ls)"
    using assms by (rule delete_on_collection)
  show ?thesis
  proof (cases "accepts ls STORAGE_KEY (JSON_stringify (JArr ?kept))")
    case True
    have "wf_json (JArr ?kept)"
      using wf_stored_tasks [OF assms(1)] by (simp add: wf_elements_filter)
    with True have "getAllTasks (saveTasks (JArr ?kept) ls) = JArr ?kept"
      by (simp add: getAllTasks_saveTasks)
    moreover from assms(2) have "JNull \<notin> set ?kept"
      by simp
    ultimately have "delete i (saveTasks (JArr ?kept) ls)
        = (Inr (), saveTasks (JArr (filter (\<lambda>t. \<not> has_id i t) ?kept)) (saveTasks (JArr ?kept) ls))"
      by (rule delete_on_collection)
    then show ?thesis
      by (simp add: d saveTasks_twice)
  next
    case False
    then show ?thesis
      by (simp add: d saveTasks_rejected)
  qed
qed

lemma filter_absent: "\<forall>t\<in>set ts. \<not> has_id i t \<Longrightarrow> filter (\<lambda>t. \<not> has_id i t) ts = ts"
  by (induction ts) simp_all

section \<open>Identifiers\<close>












section \<open>The service keeps a collection in the storage\<close>

text \<open>
  That the storage holds a collection, an array without \<^verbatim>\<open>null\<close> entries, is true of a
  slot that was never written and of one that cannot be parsed, and every operation of
  the service keeps it true. It is false of a slot into which something else has written
  other JSON, such as \<^verbatim>\<open>42\<close>, \<^verbatim>\<open>{}\<close> or \<^verbatim>\<open>[null]\<close>: nothing in the service checks the shape
  of what it has parsed. (For the code the lemmas on writing carry over to collections
  without numbers: an array element that is a number too large for a double is written
  back as \<^verbatim>\<open>null\<close> by the code and as the literal by the model.)
\<close>

lemma holds_collection_tasks:
  "holds_collection ls \<Longrightarrow> \<exists>tasks. getAllTasks ls = JArr tasks \<and> JNull \<notin> set tasks"
  by (cases "getAllTasks ls") (simp_all add: holds_collection_def)

lemma holds_collection_unset: "items ls STORAGE_KEY = None \<Longrightarrow> holds_collection ls"
  by (simp add: holds_collection_def getAllTasks_def getItem_def)

lemma holds_collection_unreadable:
  "items ls STORAGE_KEY = Some blob \<Longrightarrow> JSON_parse blob = None \<Longrightarrow> holds_collection ls"
  by (simp add: holds_collection_def getAllTasks_def getItem_def)

lemma holds_collection_saveTasks:
  assumes "holds_collection ls" and "wf_elements ts" and "JNull \<notin> set ts"
  shows "holds_collection (saveTasks (JArr ts) ls)"
proof (cases "accepts ls STORAGE_KEY (JSON_stringify (JArr ts))")
  case True
  with assms(2) have "getAllTasks (saveTasks (JArr ts) ls) = JArr ts"
    by (simp add: getAllTasks_saveTasks)
  with assms(3) show ?thesis
    by (simp add: holds_collection_def)
next
  case False
  with assms(1) show ?thesis
    by (simp add: saveTasks_rejected)
qed

lemma holds_collection_create:
  assumes "holds_collection ls"
  shows "holds_collection (snd (create req rd ls))"
proof -
  from assms obtain tasks where t: "getAllTasks ls = JArr tasks" "JNull \<notin> set tasks"
    by (auto dest: holds_collection_tasks)
  have "wf_elements (tasks @ [new_task req rd])"
    using wf_stored_tasks [OF t(1)] by (simp add: wf_elements_iff wf_new_task)
  moreover from t(2) have "JNull \<notin> set (tasks @ [new_task req rd])"
    by (simp add: new_task_def)
  ultimately have "holds_collection (saveTasks (JArr (tasks @ [new_task req rd])) ls)"
    using assms by (intro holds_collection_saveTasks)
  then show ?thesis
    by (simp add: create_on_array [OF t(1)])
qed

lemma holds_collection_delete:
  assumes "holds_collection ls"
  shows "holds_collection (snd (delete i ls))"
proof -
  from assms obtain tasks where t: "getAllTasks ls = JArr tasks" "JNull \<notin> set tasks"
    by (auto dest: holds_collection_tasks)
  let ?kept = "filter (\<lambda>t. \<not> has_id i t) tasks"
  have "wf_elements ?kept"
    using wf_stored_tasks [OF t(1)] by (rule wf_elements_filter)
  moreover from t(2) have "JNull \<notin> set ?kept"
    by simp
  ultimately have "holds_collection (saveTasks (JArr ?kept) ls)"
    using assms by (intro holds_collection_saveTasks)
  then show ?thesis
    by (simp add: delete_on_collection [OF t])
qed

lemma holds_collection_update:
  assumes "holds_collection ls" and "wf_members data"
  shows "holds_collection (snd (update i data rd ls))"
proof -
  from assms(1) obtain tasks where t: "getAllTasks ls = JArr tasks" "JNull \<notin> set tasks"
    by (auto dest: holds_collection_tasks)
  show ?thesis
  proof (cases "\<exists>t\<in>set tasks. has_id i t")
    case False
    with t have "update i data rd ls = (Inl Task_not_found, ls)"
      by (simp add: update_def Array_findIndex_absent)
    with assms(1) show ?thesis
      by simp
  next
    case True
    then obtain n where n: "n < length tasks" "has_id i (tasks ! n)"
      "list_all (\<lambda>t. \<not> has_id i t) (take n tasks)"
      using first_index_exists [of tasks "has_id i"] by blast
    let ?t = "updated_task (tasks ! n) data rd"
    have u: "update i data rd ls = (Inr ?t, saveTasks (JArr (tasks[n := ?t])) ls)"
      using t n by (rule update_existing)
    have "?t \<noteq> JNull"
      by (simp add: updated_task_def)
    with t(2) have "JNull \<notin> set (tasks[n := ?t])"
      by (auto dest: set_update_subset_insert [THEN subsetD])
    moreover have "wf_json (tasks ! n)"
      using wf_stored_tasks [OF t(1)] n(1) by (simp add: wf_elements_iff)
    with n(2) assms(2) have "wf_json ?t"
      by (intro wf_updated_task)
    with wf_stored_tasks [OF t(1)] have "wf_elements (tasks[n := ?t])"
      by (rule wf_elements_list_update)
    ultimately have "holds_collection (saveTasks (JArr (tasks[n := ?t])) ls)"
      using assms(1) by (intro holds_collection_saveTasks)
    with u show ?thesis
      by simp
  qed
qed

section \<open>When the storage holds something else\<close>

text \<open>
  On an array with a \<^verbatim>\<open>null\<close> entry the searches throw when they reach it, since they
  read the \<^verbatim>\<open>id\<close> of every entry they look at; on a value that is not an array
  \<^verbatim>\<open>find\<close>, \<^verbatim>\<open>findIndex\<close> and \<^verbatim>\<open>filter\<close> are not functions, and the array spread of
  \<^verbatim>\<open>create\<close> iterates a string and throws on everything else.
\<close>

lemma not_has_id_null: "\<not> has_id i JNull"
  by (simp add: has_id_def)

lemma Array_find_null:
  "JNull \<in> set ts \<Longrightarrow> \<forall>t\<in>set ts. \<not> has_id i t \<Longrightarrow> Array_find i ts = Inl TypeError"
proof (induction ts)
  case Nil
  then show ?case by simp
next
  case (Cons t ts)
  show ?case
  proof (cases "t = JNull")
    case True
    then show ?thesis by simp
  next
    case False
    with Cons show ?thesis
      by (simp add: id_matches_eq [of t i])
  qed
qed

lemma Array_findIndex_null:
  "JNull \<in> set ts \<Longrightarrow> \<forall>t\<in>set ts. \<not> has_id i t \<Longrightarrow> Array_findIndex i ts = Inl TypeError"
proof (induction ts)
  case Nil
  then show ?case by simp
next
  case (Cons t ts)
  show ?case
  proof (cases "t = JNull")
    case True
    then show ?thesis by simp
  next
    case False
    with Cons show ?thesis
      by (simp add: id_matches_eq [of t i])
  qed
qed

lemma Array_filter_null: "JNull \<in> set ts \<Longrightarrow> Array_filter i ts = Inl TypeError"
proof (induction ts)
  case Nil
  then show ?case by simp
next
  case (Cons t ts)
  show ?case
  proof (cases "t = JNull")
    case True
    then show ?thesis by simp
  next
    case False
    with Cons have "Array_filter i ts = Inl TypeError"
      by simp
    with False show ?thesis
      by (simp add: id_matches_eq [of t i])
  qed
qed

lemma delete_without_collection:
  "\<not> holds_collection ls \<Longrightarrow> delete i ls = (Inl TypeError, ls)"
  by (cases "getAllTasks ls") (simp_all add: holds_collection_def delete_def Array_filter_null)

lemma delete_succeeds_iff: "(fst (delete i ls) = Inr ()) = holds_collection ls"
proof (cases "holds_collection ls")
  case True
  then obtain tasks where "getAllTasks ls = JArr tasks" "JNull \<notin> set tasks"
    by (auto dest: holds_collection_tasks)
  then have "delete i ls = (Inr (), saveTasks (JArr (filter (\<lambda>t. \<not> has_id i t) tasks)) ls)"
    by (rule delete_on_collection)
  with True show ?thesis by simp
next
  case False
  then show ?thesis by (simp add: delete_without_collection)
qed



lemma getAllTasks_parsed:
  "JSON_parse blob = Some v \<Longrightarrow> getAllTasks (storage_with blob) = v"
  by (auto simp: getAllTasks_def getItem_def storage_with_def JSON_parse_Nil)

lemma getAllTasks_null_entry: "getAllTasks (storage_with ''[null]'') = JArr [JNull]"
proof -
  have "JSON_parse ''[null]'' = Some (JArr [JNull])"
    by code_simp
  then show ?thesis
    by (rule getAllTasks_parsed)
qed

lemma getAllTasks_number: "getAllTasks (storage_with ''42'') = JNum ''42''"
proof -
  have "JSON_parse ''42'' = Some (JNum ''42'')"
    by code_simp
  then show ?thesis
    by (rule getAllTasks_parsed)
qed

section \<open>The properties of the specification\<close>

subsection \<open>C1: what an update does to \<^verbatim>\<open>id\<close> and \<^verbatim>\<open>createdAt\<close>\<close>




subsection \<open>C2: a missing identifier\<close>

text \<open>
  C2 says that \<^verbatim>\<open>update\<close> and \<^verbatim>\<open>getById\<close> fail with \<^verbatim>\<open>Task not found\<close> for every
  identifier that is not in the stored collection. The code searches with
  \<^verbatim>\<open>t.id === id\<close> and checks the shape of nothing it has parsed. Counterexample to C2, as
  stated: in the slot \<^verbatim>\<open>[null]\<close> no entry has the identifier, yet reading the \<^verbatim>\<open>id\<close> of
  \<^verbatim>\<open>null\<close> throws a \<^verbatim>\<open>TypeError\<close>; in the slot \<^verbatim>\<open>42\<close> there is no \<^verbatim>\<open>findIndex\<close> to call.
\<close>

theorem C2_counterexample:
  "getAllTasks (storage_with ''[null]'') = JArr [JNull]
   \<and> get_prop ''id'' JNull = None
   \<and> update ''abc'' patch_high readings_1 (storage_with ''[null]'')
       = (Inl TypeError, storage_with ''[null]'')
   \<and> getById ''abc'' (storage_with ''[null]'') = (Inl TypeError, storage_with ''[null]'')
   \<and> getAllTasks (storage_with ''42'') = JNum ''42''
   \<and> update ''abc'' patch_high readings_1 (storage_with ''42'')
       = (Inl TypeError, storage_with ''42'')
   \<and> getById ''abc'' (storage_with ''42'') = (Inl TypeError, storage_with ''42'')"
  by (simp add: getAllTasks_null_entry getAllTasks_number update_def getById_def)

text \<open>
  C2 as amended: for every patch and every identifier \<open>i\<close> that no entry of the stored
  array has, \<^verbatim>\<open>update\<close> and \<^verbatim>\<open>getById\<close> fail with \<^verbatim>\<open>Task not found\<close> when the array has no
  \<^verbatim>\<open>null\<close> entry, and with a \<^verbatim>\<open>TypeError\<close> when it has one; they fail with a \<^verbatim>\<open>TypeError\<close>
  too when the stored value is not an array. In each case the storage is handed back as
  it was.
\<close>

theorem C2_missing_id_not_found:
  "(\<forall>tasks. getAllTasks ls = JArr tasks \<and> (\<forall>t\<in>set tasks. \<not> has_id i t) \<longrightarrow>
       (JNull \<notin> set tasks \<longrightarrow>
          update i data rd ls = (Inl Task_not_found, ls)
          \<and> getById i ls = (Inl Task_not_found, ls))
     \<and> (JNull \<in> set tasks \<longrightarrow>
          update i data rd ls = (Inl TypeError, ls)
          \<and> getById i ls = (Inl TypeError, ls)))
   \<and> ((\<forall>tasks. getAllTasks ls \<noteq> JArr tasks) \<longrightarrow>
          update i data rd ls = (Inl TypeError, ls)
          \<and> getById i ls = (Inl TypeError, ls))"
proof -
  have "update i data rd ls = (Inl Task_not_found, ls) \<and> getById i ls = (Inl Task_not_found, ls)"
    if "getAllTasks ls = JArr tasks" "\<forall>t\<in>set tasks. \<not> has_id i t" "JNull \<notin> set tasks" for tasks
    using that by (simp add: update_def getById_def Array_find_absent Array_findIndex_absent)
  moreover have "update i data rd ls = (Inl TypeError, ls) \<and> getById i ls = (Inl TypeError, ls)"
    if "getAllTasks ls = JArr tasks" "\<forall>t\<in>set tasks. \<not> has_id i t" "JNull \<in> set tasks" for tasks
    using that by (simp add: update_def getById_def Array_find_null Array_findIndex_null)
  moreover have "update i data rd ls = (Inl TypeError, ls) \<and> getById i ls = (Inl TypeError, ls)"
    if "\<forall>tasks. getAllTasks ls \<noteq> JArr tasks"
    using that by (cases "getAllTasks ls") (simp_all add: update_def getById_def)
  ultimately show ?thesis
    by blast
qed

text \<open>
  C2, witness: \<^verbatim>\<open>does-not-exist\<close> is looked for in the collection that holds task \<^verbatim>\<open>abc\<close>,
  in \<^verbatim>\<open>[null]\<close> and in \<^verbatim>\<open>42\<close>.
\<close>

theorem C2_witness:
  "update ''does-not-exist'' [(''priority'', JStr ''low'')] readings_1 storage_abc
     = (Inl Task_not_found, storage_abc)
   \<and> getById ''does-not-exist'' storage_abc = (Inl Task_not_found, storage_abc)
   \<and> getAllTasks storage_abc = JArr [task_abc]
   \<and> getById ''does-not-exist'' (storage_with ''[null]'') = (Inl TypeError, storage_with ''[null]'')
   \<and> getById ''does-not-exist'' (storage_with ''42'') = (Inl TypeError, storage_with ''42'')"
proof -
  have a: "JNull \<notin> set [task_abc]"
    by (simp add: task_abc_def)
  have b: "\<forall>t\<in>set [task_abc]. \<not> has_id ''does-not-exist'' t"
    by (simp add: task_abc_def has_id_def)
  have c: "JNull \<in> set [JNull]" "\<forall>t\<in>set [JNull]. \<not> has_id ''does-not-exist'' t"
    by (simp_all add: has_id_def)
  have d: "\<forall>tasks. getAllTasks (storage_with ''42'') \<noteq> JArr tasks"
    by (simp add: getAllTasks_number)
  note found = C2_missing_id_not_found
    [of storage_abc "''does-not-exist''" "[(''priority'', JStr ''low'')]" readings_1]
  note null = C2_missing_id_not_found [of "storage_with ''[null]''" "''does-not-exist''" "[]" readings_1]
  note number = C2_missing_id_not_found [of "storage_with ''42''" "''does-not-exist''" "[]" readings_1]
  from found getAllTasks_storage_abc a b
  have "update ''does-not-exist'' [(''priority'', JStr ''low'')] readings_1 storage_abc
     = (Inl Task_not_found, storage_abc)
   \<and> getById ''does-not-exist'' storage_abc = (Inl Task_not_found, storage_abc)"
    by blast
  moreover from null getAllTasks_null_entry c
  have "getById ''does-not-exist'' (storage_with ''[null]'') = (Inl TypeError, storage_with ''[null]'')"
    by blast
  moreover from number d
  have "getById ''does-not-exist'' (storage_with ''42'') = (Inl TypeError, storage_with ''42'')"
    by blast
  ultimately show ?thesis
    using getAllTasks_storage_abc by blast
qed

subsection \<open>C3: creating a task\<close>




subsection \<open>C4: what an update changes\<close>




subsection \<open>C5: deleting\<close>

text \<open>
  C5 says that \<^verbatim>\<open>delete\<close> never fails. It filters whatever \<^verbatim>\<open>getAllTasks\<close> returned with
  \<^verbatim>\<open>t.id !== id\<close>. Counterexample to C5, as stated: on the slot \<^verbatim>\<open>42\<close> there is no
  \<^verbatim>\<open>filter\<close> to call, on the slot \<^verbatim>\<open>[null]\<close> reading the \<^verbatim>\<open>id\<close> of \<^verbatim>\<open>null\<close> throws; in both
  \<^verbatim>\<open>delete\<close> fails with a \<^verbatim>\<open>TypeError\<close>.
\<close>

theorem C5_counterexample:
  "getAllTasks (storage_with ''42'') = JNum ''42''
   \<and> delete ''abc'' (storage_with ''42'') = (Inl TypeError, storage_with ''42'')
   \<and> getAllTasks (storage_with ''[null]'') = JArr [JNull]
   \<and> delete ''abc'' (storage_with ''[null]'') = (Inl TypeError, storage_with ''[null]'')"
  by (simp add: getAllTasks_number getAllTasks_null_entry delete_def)

text \<open>
  C5 as amended: \<^verbatim>\<open>delete\<close> succeeds exactly when the storage holds a collection, an array
  without \<^verbatim>\<open>null\<close> entries; otherwise it throws a \<^verbatim>\<open>TypeError\<close> and leaves the storage as
  it was. On a collection it hands the tasks that do not have the identifier to
  \<^verbatim>\<open>saveTasks\<close>; for an identifier that no stored task has, \<^verbatim>\<open>getById\<close> and \<^verbatim>\<open>update\<close> fail
  with \<^verbatim>\<open>Task not found\<close> where \<^verbatim>\<open>delete\<close> succeeds, and the collection read back afterwards
  is the one before. Deleting a second time returns the same result and the same storage
  as deleting once. What is read back after a write is stated for collections without
  numbers, as collections of tasks are: the code prints a parsed number anew where the
  model writes its literal.
\<close>

theorem C5_delete_fails_only_without_collection_and_is_idempotent:
  "(fst (delete i ls) = Inr ()) = holds_collection ls
   \<and> (\<not> holds_collection ls \<longrightarrow>
         delete i ls = (Inl TypeError, ls) \<and> delete i (snd (delete i ls)) = delete i ls)
   \<and> (\<forall>tasks. getAllTasks ls = JArr tasks \<and> JNull \<notin> set tasks \<longrightarrow>
         delete i ls = (Inr (), saveTasks (JArr (filter (\<lambda>t. \<not> has_id i t) tasks)) ls)
         \<and> ((\<forall>t\<in>set tasks. \<not> has_id i t) \<longrightarrow>
               fst (getById i ls) = Inl Task_not_found
               \<and> fst (update i data rd ls) = Inl Task_not_found)
         \<and> (number_free_elements tasks \<and> (\<forall>t\<in>set tasks. \<not> has_id i t) \<longrightarrow>
               getAllTasks (snd (delete i ls)) = JArr tasks)
         \<and> (number_free_elements tasks \<longrightarrow>
               delete i (snd (delete i ls)) = delete i ls))"
proof -
  have none: "delete i ls = (Inl TypeError, ls) \<and> delete i (snd (delete i ls)) = delete i ls"
    if "\<not> holds_collection ls"
    using that by (simp add: delete_without_collection)
  have coll: "delete i ls = (Inr (), saveTasks (JArr (filter (\<lambda>t. \<not> has_id i t) tasks)) ls)
      \<and> ((\<forall>t\<in>set tasks. \<not> has_id i t) \<longrightarrow>
            fst (getById i ls) = Inl Task_not_found
            \<and> fst (update i data rd ls) = Inl Task_not_found)
      \<and> (number_free_elements tasks \<and> (\<forall>t\<in>set tasks. \<not> has_id i t) \<longrightarrow>
            getAllTasks (snd (delete i ls)) = JArr tasks)
      \<and> (number_free_elements tasks \<longrightarrow> delete i (snd (delete i ls)) = delete i ls)"
    if g: "getAllTasks ls = JArr tasks" and n: "JNull \<notin> set tasks" for tasks
  proof -
    have d: "delete i ls = (Inr (), saveTasks (JArr (filter (\<lambda>t. \<not> has_id i t) tasks)) ls)"
      using g n by (rule delete_on_collection)
    have "fst (getById i ls) = Inl Task_not_found \<and> fst (update i data rd ls) = Inl Task_not_found"
      if "\<forall>t\<in>set tasks. \<not> has_id i t"
      using g n that by (simp add: getById_def update_def Array_find_absent Array_findIndex_absent)
    moreover have "getAllTasks (snd (delete i ls)) = JArr tasks"
      if a: "\<forall>t\<in>set tasks. \<not> has_id i t"
    proof -
      have "wf_json (JArr tasks)"
        using wf_stored_tasks [OF g] by simp
      then have "getAllTasks (saveTasks (JArr tasks) ls) = JArr tasks"
        using getAllTasks_saveTasks_cases [of "JArr tasks" ls] g by auto
      with a show ?thesis
        by (simp add: d filter_absent)
    qed
    ultimately show ?thesis
      using d delete_twice [OF g n] by blast
  qed
  from delete_succeeds_iff [of i ls] none coll show ?thesis
    by blast
qed

text \<open>
  C5, witness: deleting \<^verbatim>\<open>does-not-exist\<close> leaves the storage with task \<^verbatim>\<open>abc\<close> as it is;
  deleting \<^verbatim>\<open>abc\<close> empties it, twice as once; on the slot \<^verbatim>\<open>42\<close>, which holds no
  collection, \<^verbatim>\<open>delete\<close> throws.
\<close>

theorem C5_witness:
  "delete ''does-not-exist'' storage_abc = (Inr (), storage_abc)
   \<and> getAllTasks (snd (delete ''does-not-exist'' storage_abc)) = JArr [task_abc]
   \<and> fst (getById ''does-not-exist'' storage_abc) = Inl Task_not_found
   \<and> delete ''abc'' storage_abc = (Inr (), storage_with (JSON_stringify (JArr [])))
   \<and> delete ''abc'' (snd (delete ''abc'' storage_abc)) = delete ''abc'' storage_abc
   \<and> holds_collection storage_abc
   \<and> \<not> holds_collection (storage_with ''42'')
   \<and> delete ''abc'' (storage_with ''42'') = (Inl TypeError, storage_with ''42'')"
proof -
  have n: "JNull \<notin> set [task_abc]"
    by (simp add: task_abc_def)
  have f: "number_free_elements [task_abc]"
    by (simp add: task_abc_def)
  have a: "\<forall>t\<in>set [task_abc]. \<not> has_id ''does-not-exist'' t"
    by (simp add: task_abc_def has_id_def)
  have b: "has_id ''abc'' task_abc"
    by (simp add: task_abc_def has_id_def)
  have s: "saveTasks v storage_abc = storage_with (JSON_stringify v)" for v
    by (simp add: storage_abc_def saveTasks_storage_with)
  have s0: "saveTasks (JArr [task_abc]) storage_abc = storage_abc"
    by (simp add: storage_abc_def saveTasks_storage_with)
  have h: "holds_collection storage_abc"
    using n by (simp add: holds_collection_def getAllTasks_storage_abc)
  have h42: "\<not> holds_collection (storage_with ''42'')"
    by (simp add: holds_collection_def getAllTasks_number)
  note missing = C5_delete_fails_only_without_collection_and_is_idempotent
    [of "''does-not-exist''" storage_abc "[]" readings_1]
  note present = C5_delete_fails_only_without_collection_and_is_idempotent
    [of "''abc''" storage_abc "[]" readings_1]
  note number = C5_delete_fails_only_without_collection_and_is_idempotent
    [of "''abc''" "storage_with ''42''" "[]" readings_1]
  from missing getAllTasks_storage_abc n
  have "delete ''does-not-exist'' storage_abc
      = (Inr (), saveTasks (JArr (filter (\<lambda>t. \<not> has_id ''does-not-exist'' t) [task_abc])) storage_abc)"
    by blast
  with a have "delete ''does-not-exist'' storage_abc = (Inr (), storage_abc)"
    by (simp add: s0)
  moreover from missing getAllTasks_storage_abc n f a
  have "getAllTasks (snd (delete ''does-not-exist'' storage_abc)) = JArr [task_abc]"
    by blast
  moreover from missing getAllTasks_storage_abc n a
  have "fst (getById ''does-not-exist'' storage_abc) = Inl Task_not_found"
    by blast
  moreover from present getAllTasks_storage_abc n
  have "delete ''abc'' storage_abc
      = (Inr (), saveTasks (JArr (filter (\<lambda>t. \<not> has_id ''abc'' t) [task_abc])) storage_abc)"
    by blast
  with b have "delete ''abc'' storage_abc = (Inr (), storage_with (JSON_stringify (JArr [])))"
    by (simp add: s)
  moreover from present getAllTasks_storage_abc n f
  have "delete ''abc'' (snd (delete ''abc'' storage_abc)) = delete ''abc'' storage_abc"
    by blast
  moreover from number h42
  have "delete ''abc'' (storage_with ''42'') = (Inl TypeError, storage_with ''42'')"
    by blast
  ultimately show ?thesis
    using h h42 by blast
qed

subsection \<open>C6: unreadable storage\<close>

text \<open>
  C6: when the text in the storage slot does not parse, \<^verbatim>\<open>getAllTasks\<close> returns the empty
  array and so does \<^verbatim>\<open>getAll\<close>; and whatever the storage holds, \<^verbatim>\<open>getAll\<close> returns a value
  and raises nothing.
\<close>

theorem C6_corrupt_storage_reads_as_empty:
  "(\<forall>blob. getItem STORAGE_KEY ls = Some blob \<longrightarrow> JSON_parse blob = None \<longrightarrow>
      getAllTasks ls = JArr [] \<and> fst (getAll ls) = Inr (JArr []))
   \<and> (\<exists>v. fst (getAll ls) = Inr v)"
  by (simp add: getAll_def getAllTasks_def)

text \<open>C6, witness: the slot holds \<^verbatim>\<open>not json\<close>.\<close>

theorem C6_witness:
  "getItem STORAGE_KEY (storage_with ''not json'') = Some ''not json''
   \<and> JSON_parse ''not json'' = None
   \<and> getAllTasks (storage_with ''not json'') = JArr []
   \<and> fst (getAll (storage_with ''not json'')) = Inr (JArr [])"
proof -
  have g: "getItem STORAGE_KEY (storage_with ''not json'') = Some ''not json''"
    by (simp add: getItem_def storage_with_def)
  have p: "JSON_parse ''not json'' = None"
    by code_simp
  from C6_corrupt_storage_reads_as_empty [of "storage_with ''not json''"] g p show ?thesis
    by blast
qed

subsection \<open>C7: saving and loading\<close>

text \<open>
  C7: for every sequence \<open>T\<close> of \<^verbatim>\<open>Task\<close> records, when the browser takes the write,
  \<^verbatim>\<open>getAllTasks\<close> after \<^verbatim>\<open>saveTasks T\<close> returns \<open>T\<close>: the same tasks with the same fields,
  in the same order.
\<close>

theorem C7_save_then_load:
  "list_all is_Task T \<Longrightarrow> accepts ls STORAGE_KEY (JSON_stringify (JArr T)) \<Longrightarrow>
     getAllTasks (saveTasks (JArr T) ls) = JArr T"
proof -
  assume "list_all is_Task T" and a: "accepts ls STORAGE_KEY (JSON_stringify (JArr T))"
  then have "wf_json (JArr T)"
    by (simp add: wf_elements_iff list_all_iff is_Task_wf)
  then show ?thesis
    using a by (rule getAllTasks_saveTasks)
qed

text \<open>C7, witness: two tasks saved into the empty storage and loaded again.\<close>

theorem C7_witness:
  "list_all is_Task [task_abc, task_milk]
   \<and> accepts empty_storage STORAGE_KEY (JSON_stringify (JArr [task_abc, task_milk]))
   \<and> getAllTasks (saveTasks (JArr [task_abc, task_milk]) empty_storage) = JArr [task_abc, task_milk]"
proof -
  have t: "list_all is_Task [task_abc, task_milk]"
    by (auto simp: task_abc_def task_milk_def Task_keys_def)
  have a: "accepts empty_storage STORAGE_KEY (JSON_stringify (JArr [task_abc, task_milk]))"
    by (simp add: empty_storage_def)
  from C7_save_then_load [OF t a] t a show ?thesis
    by blast
qed

subsection \<open>C8: identifiers\<close>




subsection \<open>C9: reading does not write\<close>

text \<open>
  C9: \<^verbatim>\<open>getAll\<close> and \<^verbatim>\<open>getById\<close> leave the storage as they found it, whatever it holds
  and whether \<^verbatim>\<open>getById\<close> returns a task or fails.
\<close>

theorem C9_reads_leave_storage:
  "snd (getAll ls) = ls \<and> snd (getById i ls) = ls"
  by (simp add: getAll_def getById_def split: jsval.split sum.split option.split)

text \<open>C9, witness: a list, a successful and a failing lookup on the collection with task \<^verbatim>\<open>abc\<close>.\<close>

theorem C9_witness:
  "snd (getAll storage_abc) = storage_abc
   \<and> getById ''abc'' storage_abc = (Inr task_abc, storage_abc)
   \<and> getById ''does-not-exist'' storage_abc = (Inl Task_not_found, storage_abc)"
  using C9_reads_leave_storage [of storage_abc]
  by (simp add: getById_def getAllTasks_storage_abc) (simp add: task_abc_def)

subsection \<open>C10: no shape check on parsed storage\<close>

text \<open>
  C10: when the text in the storage slot parses, \<^verbatim>\<open>getAllTasks\<close> returns the parsed value
  as it is, array or not, and \<^verbatim>\<open>getAll\<close> hands it on.
\<close>

theorem C10_parsed_value_returned_as_is:
  "getItem STORAGE_KEY ls = Some blob \<Longrightarrow> JSON_parse blob = Some v \<Longrightarrow>
     getAllTasks ls = v \<and> fst (getAll ls) = Inr v"
  by (auto simp: getAll_def getAllTasks_def JSON_parse_Nil)

text \<open>
  C10, witness: the slot holds the number \<^verbatim>\<open>42\<close>, the object \<^verbatim>\<open>{}\<close>, the string \<^verbatim>\<open>"ab"\<close>;
  each comes back as it was parsed, none as the empty array.
\<close>

theorem C10_witness:
  "getAllTasks (storage_with ''42'') = JNum ''42''
   \<and> fst (getAll (storage_with ''42'')) = Inr (JNum ''42'')
   \<and> getAllTasks (storage_with ''{}'') = JObj []
   \<and> getAllTasks (storage_with (CHR 0x22 # ''ab'' @ [CHR 0x22])) = JStr ''ab''"
proof -
  have g: "getItem STORAGE_KEY (storage_with blob) = Some blob" for blob
    by (simp add: getItem_def storage_with_def)
  have n: "JSON_parse ''42'' = Some (JNum ''42'')"
    by code_simp
  have ob: "JSON_parse ''{}'' = Some (JObj [])"
    by code_simp
  have st: "JSON_parse (CHR 0x22 # ''ab'' @ [CHR 0x22]) = Some (JStr ''ab'')"
    by code_simp
  from C10_parsed_value_returned_as_is [OF g n] C10_parsed_value_returned_as_is [OF g ob]
    C10_parsed_value_returned_as_is [OF g st]
  show ?thesis
    by simp
qed

end
